theory Spec2Isabelle
  imports Complex_Main
begin

section \<open>Data model\<close>

text \<open>
  JavaScript numbers are modelled as follows: quantities that the program only ever counts
  (ids, score, combo, generation, slice budgets) are \<open>int\<close>; every other number is a
  \<open>real\<close>, i.e. arithmetic is exact and there are no infinities. The one place where
  the program relies on the IEEE value NaN (a division \<open>0 / 0\<close> in the swept
  collision test) is written out as a branch of its own.

  JavaScript objects are references. The game objects live in a store, \<open>heap\<close>, a list
  in which the address of an object is its index and allocation appends; arrays of objects
  (\<open>this.objects\<close>, the frame summary, the removal queue) are lists of addresses. A
  reference of the program always points to an object; in the model this is the condition
  that an address is below the length of the store. The observer callbacks (\<open>onSpawn\<close>,
  \<open>onSlice\<close>, ...) are \<open>null\<close> after construction and only notify; they are not part of
  the model.
\<close>

record handInput =
  hx :: real
  hy :: real
  hvx :: real
  hvy :: real
  speed :: real
  visible :: bool

datatype handSide = Left | Right

record handPair =
  left :: handInput
  right :: handInput

fun handOf :: "handPair \<Rightarrow> handSide \<Rightarrow> handInput" where
  "handOf hs Left = left hs"
| "handOf hs Right = right hs"

record gameObject =
  oid :: int
  otype :: "string option"
  isBomb :: bool
  isHeart :: bool
  ox :: real
  oy :: real
  ovx :: real
  ovy :: real
  radius :: real
  rotationSpeed :: real
  rotation :: real
  active :: bool
  sliceCount :: int
  maxSlices :: int
  fadeTimer :: real
  fading :: bool
  generation :: int
  halfSide :: "int option"
  emoji :: "string option"

type_synonym ref = nat

record hitRecord =
  object :: ref
  hand :: handInput
  side :: handSide

section \<open>CollisionSystem\<close>

record collisionSystem =
  minSliceSpeed :: real
  handRadius :: real
  recentHits :: "int \<rightharpoonup> real"
  hitCooldown :: real

definition newCollisionSystem :: collisionSystem where
  "newCollisionSystem =
     \<lparr> minSliceSpeed = 0.3, handRadius = 0.05, recentHits = Map.empty, hitCooldown = 150 \<rparr>"

text \<open>The local constants \<open>a\<close>, \<open>b\<close>, \<open>c\<close> of \<open>_lineCircleIntersect\<close>.\<close>

definition lci_a :: "real \<Rightarrow> real \<Rightarrow> real \<Rightarrow> real \<Rightarrow> real" where
  "lci_a x1 y1 x2 y2 = (let dx = x2 - x1; dy = y2 - y1 in dx * dx + dy * dy)"

definition lci_b :: "real \<Rightarrow> real \<Rightarrow> real \<Rightarrow> real \<Rightarrow> real \<Rightarrow> real \<Rightarrow> real" where
  "lci_b x1 y1 x2 y2 cx cy =
     (let dx = x2 - x1; dy = y2 - y1; fx = x1 - cx; fy = y1 - cy in 2 * (fx * dx + fy * dy))"

definition lci_c :: "real \<Rightarrow> real \<Rightarrow> real \<Rightarrow> real \<Rightarrow> real \<Rightarrow> real" where
  "lci_c x1 y1 cx cy r = (let fx = x1 - cx; fy = y1 - cy in fx * fx + fy * fy - r * r)"

text \<open>
  \<open>_lineCircleIntersect\<close>. When \<open>a = 0\<close> the segment has length zero, so \<open>b = 0\<close> and the
  discriminant is \<open>0\<close>; both roots are then the IEEE quotient \<open>0 / 0 = NaN\<close>, every
  comparison with NaN is false, and the function returns \<open>false\<close>. HOL's \<open>0 / 0 = 0\<close>
  would say otherwise, hence the explicit branch.
\<close>

definition lineCircleIntersect ::
  "real \<Rightarrow> real \<Rightarrow> real \<Rightarrow> real \<Rightarrow> real \<Rightarrow> real \<Rightarrow> real \<Rightarrow> bool" where
  "lineCircleIntersect x1 y1 x2 y2 cx cy r =
     (let a = lci_a x1 y1 x2 y2;
          b = lci_b x1 y1 x2 y2 cx cy;
          c = lci_c x1 y1 cx cy r;
          discriminant = b * b - 4 * a * c
      in if discriminant < 0 then False
         else if a = 0 then False
         else
           (let d = sqrt discriminant;
                t1 = (- b - d) / (2 * a);
                t2 = (- b + d) / (2 * a)
            in (t1 \<ge> 0 \<and> t1 \<le> 1) \<or> (t2 \<ge> 0 \<and> t2 \<le> 1)))"

text \<open>The start of the swept segment: the hand one fixed tick of \<open>1/60\<close> s earlier.\<close>

definition prevX :: "handInput \<Rightarrow> real" where
  "prevX h = hx h - hvx h * (1 / 60)"

definition prevY :: "handInput \<Rightarrow> real" where
  "prevY h = hy h - hvy h * (1 / 60)"

definition sweptTest :: "collisionSystem \<Rightarrow> handInput \<Rightarrow> gameObject \<Rightarrow> bool" where
  "sweptTest cs h obj =
     lineCircleIntersect (prevX h) (prevY h) (hx h) (hy h) (ox obj) (oy obj)
       (handRadius cs + radius obj)"




definition checkCollision :: "collisionSystem \<Rightarrow> handInput \<Rightarrow> gameObject \<Rightarrow> bool" where
  "checkCollision cs h obj =
     (if \<not> visible h then False
      else if speed h < minSliceSpeed cs then False
      else
        (let dx = hx h - ox obj;
             dy = hy h - oy obj;
             dist = sqrt (dx * dx + dy * dy);
             combinedRadius = handRadius cs + radius obj
         in if dist < combinedRadius then True else sweptTest cs h obj))"

text \<open>
  \<open>checkAll\<close>: \<open>now\<close> is the value of \<open>performance.now()\<close>, \<open>hp\<close> the object store and
  \<open>objs\<close> the array of candidates. The result is the list of hits and the collision
  system with its updated cooldown cache.
\<close>

definition pruneCooldowns :: "real \<Rightarrow> collisionSystem \<Rightarrow> collisionSystem" where
  "pruneCooldowns now cs =
     cs\<lparr>recentHits := (\<lambda>k. case recentHits cs k of
                                None \<Rightarrow> None
                              | Some t \<Rightarrow> if now - t > hitCooldown cs then None else Some t)\<rparr>"

definition checkOne ::
  "real \<Rightarrow> handPair \<Rightarrow> gameObject list \<Rightarrow> ref \<Rightarrow> hitRecord list \<times> collisionSystem
     \<Rightarrow> hitRecord list \<times> collisionSystem" where
  "checkOne now hs hp a acc =
     (let hits = fst acc; cs = snd acc; obj = hp ! a in
      if fading obj then acc
      else if recentHits cs (oid obj) \<noteq> None then acc
      else
        (case find (\<lambda>sd. checkCollision cs (handOf hs sd) obj) [Left, Right] of
           None \<Rightarrow> acc
         | Some sd \<Rightarrow>
             (hits @ [\<lparr>object = a, hand = handOf hs sd, side = sd\<rparr>],
              cs\<lparr>recentHits := (recentHits cs)(oid obj \<mapsto> now)\<rparr>)))"

definition checkAll ::
  "collisionSystem \<Rightarrow> real \<Rightarrow> handPair \<Rightarrow> gameObject list \<Rightarrow> ref list
     \<Rightarrow> hitRecord list \<times> collisionSystem" where
  "checkAll cs now hs hp objs = fold (checkOne now hs hp) objs ([], pruneCooldowns now cs)"

text \<open>
  A run of successive \<open>checkAll\<close> calls on one collision system; each call comes with its
  clock value, hands, store and candidates. The result lists the ids of the objects of all
  hit records returned, in order.
\<close>

type_synonym checkCall = "real \<times> handPair \<times> gameObject list \<times> ref list"

fun checkAllRun :: "collisionSystem \<Rightarrow> checkCall list \<Rightarrow> int list" where
  "checkAllRun cs [] = []"
| "checkAllRun cs ((now, hs, hp, objs) # rest) =
     (let r = checkAll cs now hs hp objs
      in map (\<lambda>h. oid (hp ! object h)) (fst r) @ checkAllRun (snd r) rest)"

section \<open>GameEngine\<close>

record frameInfo =
  spawned :: "ref list"
  removed :: "ref list"
  hits :: "hitRecord list"

definition emptyFrame :: frameInfo where
  "emptyFrame = \<lparr> spawned = [], removed = [], hits = [] \<rparr>"

text \<open>
  The fields of the class, followed by the parts of the JavaScript runtime the engine
  works on: the object store, the module-level counter \<open>nextId\<close>, and the number of
  \<open>Math.random()\<close> calls made so far. The values \<open>Math.random()\<close> returns are given by a
  function \<open>rnd\<close>, the \<open>n\<close>-th call returning \<open>rnd n\<close>.
\<close>

record gameEngine =
  collisionSystem :: collisionSystem
  score :: int
  combo :: int
  bestCombo :: int
  comboTimer :: real
  comboWindow :: real
  isGameOver :: bool
  isPaused :: bool
  elapsed :: real
  timeRemaining :: real
  maxTime :: real
  spawnInterval :: real
  spawnTimer :: real
  minSpawnInterval :: real
  bombChance :: real
  maxBombChance :: real
  heartChance :: real
  difficultyRate :: real
  gravity :: real
  objects :: "ref list"
  heap :: "gameObject list"
  nextId :: int
  randomCalls :: nat

definition FRUIT_TYPES :: "string list" where
  "FRUIT_TYPES = [''apple'', ''orange'', ''lemon'', ''lime'', ''grape'', ''watermelon'']"

text \<open>\<open>FRUIT_TYPES[i]\<close>; an index outside the array gives \<open>undefined\<close>.\<close>

definition fruitType :: "int \<Rightarrow> string option" where
  "fruitType i = (if 0 \<le> i \<and> i < int (length FRUIT_TYPES) then Some (FRUIT_TYPES ! nat i) else None)"

definition newGameEngine :: gameEngine where
  "newGameEngine =
     \<lparr> collisionSystem = newCollisionSystem,
       score = 0, combo = 0, bestCombo = 0, comboTimer = 0, comboWindow = 1.0,
       isGameOver = False, isPaused = False, elapsed = 0,
       timeRemaining = 30, maxTime = 60,
       spawnInterval = 1.5, spawnTimer = 0, minSpawnInterval = 0.4,
       bombChance = 0.12, maxBombChance = 0.25, heartChance = 0.06,
       difficultyRate = 0.003, gravity = 0.4,
       objects = [], heap = [], nextId = 0, randomCalls = 0 \<rparr>"

definition reset :: "gameEngine \<Rightarrow> gameEngine" where
  "reset s =
     s\<lparr> score := 0, combo := 0, bestCombo := 0, comboTimer := 0, isGameOver := False,
        isPaused := False, elapsed := 0, timeRemaining := 30,
        spawnInterval := 1.5, spawnTimer := 0, bombChance := 0.12, nextId := 0,
        objects := [] \<rparr>"

definition random :: "(nat \<Rightarrow> real) \<Rightarrow> gameEngine \<Rightarrow> real \<times> gameEngine" where
  "random rnd s = (rnd (randomCalls s), s\<lparr>randomCalls := Suc (randomCalls s)\<rparr>)"

definition generateId :: "gameEngine \<Rightarrow> int \<times> gameEngine" where
  "generateId s = (nextId s + 1, s\<lparr>nextId := nextId s + 1\<rparr>)"

definition spawnObject :: "(nat \<Rightarrow> real) \<Rightarrow> gameEngine \<Rightarrow> ref \<times> gameEngine" where
  "spawnObject rnd s0 =
     (let (roll, s1) = random rnd s0;
          isB = roll < bombChance s1;
          isH = (\<not> isB \<and> roll < bombChance s1 + heartChance s1);
          (ty, s2) = (if isB then (Some ''bomb'', s1)
                      else if isH then (Some ''heart'', s1)
                      else (let (r, s') = random rnd s1
                            in (fruitType \<lfloor>r * real (length FRUIT_TYPES)\<rfloor>, s')));
          (newId, s3) = generateId s2;
          (rx, s4) = random rnd s3;
          (rvx, s5) = random rnd s4;
          (rvy, s6) = random rnd s5;
          (rad, s7) = (if isB then (0.035, s6)
                       else if isH then (0.03, s6)
                       else (let (r, s') = random rnd s6 in (0.028 + r * 0.014, s')));
          (rrs, s8) = random rnd s7;
          obj = \<lparr> oid = newId, otype = ty, isBomb = isB, isHeart = isH,
                  ox = 0.08 + rx * 0.84, oy = - 0.08,
                  ovx = (rvx - 0.5) * 0.12, ovy = 0.08 + rvy * 0.1,
                  radius = rad, rotationSpeed = (rrs - 0.5) * 0.08, rotation = 0,
                  active = True, sliceCount = 0, maxSlices = 3, fadeTimer = 0,
                  fading = False, generation = 0, halfSide = None, emoji = None \<rparr>;
          a = length (heap s8)
      in (a, s8\<lparr>heap := heap s8 @ [obj], objects := objects s8 @ [a]\<rparr>))"

text \<open>One iteration of the loop of \<open>_splitFruit\<close> that builds the two pieces.\<close>

definition makePiece ::
  "(nat \<Rightarrow> real) \<Rightarrow> ref \<Rightarrow> handInput \<Rightarrow> int \<Rightarrow> real \<Rightarrow> real \<Rightarrow> real \<Rightarrow> real \<Rightarrow> int
     \<Rightarrow> ref list \<times> gameEngine \<Rightarrow> ref list \<times> gameEngine" where
  "makePiece rnd a h newGen newRadius perpX perpY spreadSpeed i acc =
     (let pieces = fst acc; s0 = snd acc;
          obj = heap s0 ! a;
          sign = (if i = 0 then 1 else - 1);
          (newId, s1) = generateId s0;
          (r, s2) = random rnd s1;
          piece = \<lparr> oid = newId, otype = otype obj, isBomb = False, isHeart = False,
                    ox = ox obj + perpX * sign * 0.01,
                    oy = oy obj + perpY * sign * 0.01,
                    ovx = ovx obj + perpX * sign * spreadSpeed + hvx h * 0.05,
                    ovy = ovy obj + perpY * sign * spreadSpeed + hvy h * 0.05 - 0.05,
                    radius = newRadius, rotationSpeed = (r - 0.5) * 0.15,
                    rotation = rotation obj, active = True, sliceCount = 0,
                    maxSlices = 3 - newGen, fadeTimer = 0, fading = False,
                    generation = newGen, halfSide = Some i, emoji = None \<rparr>;
          p = length (heap s2)
      in (pieces @ [p], s2\<lparr>heap := heap s2 @ [piece], objects := objects s2 @ [p]\<rparr>))"

definition splitFruit ::
  "(nat \<Rightarrow> real) \<Rightarrow> ref \<Rightarrow> handInput \<Rightarrow> gameEngine \<Rightarrow> ref list \<times> gameEngine" where
  "splitFruit rnd a h s =
     (let obj = heap s ! a in
      if generation obj \<ge> 2
      then ([], s\<lparr>heap := (heap s)[a := obj\<lparr>fading := True, fadeTimer := 0\<rparr>]\<rparr>)
      else
        (let newGen = generation obj + 1;
             newRadius = radius obj * 0.7;
             handSpeed = sqrt (hvx h * hvx h + hvy h * hvy h);
             (perpX, perpY) = (if handSpeed > 0.01
                               then (- hvy h / handSpeed, hvx h / handSpeed)
                               else (1, 0));
             spreadSpeed = 0.15 + handSpeed * 0.1
         in fold (makePiece rnd a h newGen newRadius perpX perpY spreadSpeed) [0, 1] ([], s)))"

subsection \<open>The phases of \<open>update\<close>\<close>

text \<open>
  Spawning. \<open>batchCount\<close> is the local constant \<open>count\<close>, as a function of the random draw
  and of \<open>this.elapsed\<close>; \<open>spawnOne\<close> is one iteration of the loop.
\<close>

definition batchCount :: "real \<Rightarrow> real \<Rightarrow> int" where
  "batchCount r e = 1 + \<lfloor>r * min 3 (1 + e / 20)\<rfloor>"

definition spawnOne ::
  "(nat \<Rightarrow> real) \<Rightarrow> int \<Rightarrow> nat \<Rightarrow> gameEngine \<times> frameInfo \<Rightarrow> gameEngine \<times> frameInfo" where
  "spawnOne rnd count i acc =
     (let (a, s1) = spawnObject rnd (fst acc);
          (r, s2) = random rnd s1;
          obj = heap s2 ! a;
          s3 = s2\<lparr>heap := (heap s2)[a := obj\<lparr>ox := 0.08 + (real i / real_of_int count) * 0.84
                                                        + (r - 0.5) * 0.1\<rparr>]\<rparr>
      in (s3, (snd acc)\<lparr>spawned := spawned (snd acc) @ [a]\<rparr>))"

definition spawning ::
  "(nat \<Rightarrow> real) \<Rightarrow> real \<Rightarrow> gameEngine \<times> frameInfo \<Rightarrow> gameEngine \<times> frameInfo" where
  "spawning rnd dt acc =
     (let s1 = (fst acc)\<lparr>spawnTimer := spawnTimer (fst acc) + dt\<rparr> in
      if spawnTimer s1 \<ge> spawnInterval s1
      then (let s2 = s1\<lparr>spawnTimer := 0\<rparr>;
                (r, s3) = random rnd s2;
                count = batchCount r (elapsed s3)
            in fold (spawnOne rnd count) [0 ..< nat count] (s3, snd acc))
      else (s1, snd acc))"

definition comboDecay :: "real \<Rightarrow> gameEngine \<Rightarrow> gameEngine" where
  "comboDecay dt s =
     (if combo s > 0
      then (let s1 = s\<lparr>comboTimer := comboTimer s - dt\<rparr>
            in if comboTimer s1 \<le> 0 then s1\<lparr>combo := 0\<rparr> else s1)
      else s)"

text \<open>
  Physics. \<open>integrate\<close> is the four assignments that both branches of the loop body make
  to velocity, position and rotation; \<open>physicsStep\<close> is one iteration, for the object at
  address \<open>a\<close>, with \<open>g\<close> for \<open>this.gravity\<close>.
\<close>

definition integrate :: "real \<Rightarrow> real \<Rightarrow> gameObject \<Rightarrow> gameObject" where
  "integrate g dt obj =
     (let o1 = obj\<lparr>ovy := ovy obj + g * dt\<rparr>;
          o2 = o1\<lparr>ox := ox o1 + ovx o1 * dt\<rparr>;
          o3 = o2\<lparr>oy := oy o2 + ovy o2 * dt\<rparr>
      in o3\<lparr>rotation := rotation o3 + rotationSpeed o3\<rparr>)"

definition physicsStep ::
  "real \<Rightarrow> real \<Rightarrow> ref \<Rightarrow> gameObject list \<times> ref list \<Rightarrow> gameObject list \<times> ref list" where
  "physicsStep g dt a acc =
     (let hp = fst acc; toRemove = snd acc; obj = hp ! a in
      if \<not> active obj then acc
      else if fading obj
      then (let o1 = integrate g dt (obj\<lparr>fadeTimer := fadeTimer obj + dt\<rparr>)
            in (hp[a := o1], if fadeTimer o1 > 0.6 then toRemove @ [a] else toRemove))
      else (let o1 = integrate g dt obj;
                tr1 = (if oy o1 > 1.2 then toRemove @ [a] else toRemove);
                tr2 = (if ox o1 < - 0.15 \<or> ox o1 > 1.15 then tr1 @ [a] else tr1)
            in (hp[a := o1], tr2)))"

definition physics :: "real \<Rightarrow> gameEngine \<Rightarrow> gameEngine \<times> ref list" where
  "physics dt s =
     (let r = fold (physicsStep (gravity s) dt) (objects s) (heap s, [])
      in (s\<lparr>heap := fst r\<rparr>, snd r))"

definition sliceable :: "gameEngine \<Rightarrow> ref list" where
  "sliceable s = filter (\<lambda>a. active (heap s ! a) \<and> \<not> fading (heap s ! a)) (objects s)"

text \<open>Resolution of one hit, by kind.\<close>

definition markFading :: "real \<Rightarrow> ref \<Rightarrow> gameObject list \<Rightarrow> gameObject list" where
  "markFading ft a hp = hp[a := (hp ! a)\<lparr>fading := True, fadeTimer := ft\<rparr>]"

definition fadeOther :: "ref \<Rightarrow> ref \<Rightarrow> gameObject list \<Rightarrow> gameObject list" where
  "fadeOther a other hp =
     (if other \<noteq> a \<and> active (hp ! other) \<and> \<not> fading (hp ! other)
      then markFading 0.4 other hp else hp)"

definition bombHit :: "hitRecord \<Rightarrow> gameEngine \<times> frameInfo \<Rightarrow> gameEngine \<times> frameInfo" where
  "bombHit hit acc =
     (let s = fst acc; a = object hit;
          s1 = s\<lparr>timeRemaining := max 0 (timeRemaining s - 10)\<rparr>;
          s2 = s1\<lparr>heap := markFading 0 a (heap s1)\<rparr>;
          s3 = s2\<lparr>heap := fold (fadeOther a) (objects s2) (heap s2)\<rparr>
      in (s3, (snd acc)\<lparr>hits := hits (snd acc) @ [hit]\<rparr>))"

definition heartHit :: "hitRecord \<Rightarrow> gameEngine \<times> frameInfo \<Rightarrow> gameEngine \<times> frameInfo" where
  "heartHit hit acc =
     (let s = fst acc; a = object hit;
          s1 = s\<lparr>timeRemaining := min (maxTime s) (timeRemaining s + 10)\<rparr>;
          s2 = s1\<lparr>heap := markFading 0 a (heap s1)\<rparr>
      in (s2, (snd acc)\<lparr>hits := hits (snd acc) @ [hit]\<rparr>))"

definition sliceFruit ::
  "(nat \<Rightarrow> real) \<Rightarrow> hitRecord \<Rightarrow> gameEngine \<times> frameInfo \<Rightarrow> gameEngine \<times> frameInfo" where
  "sliceFruit rnd hit acc =
     (let a = object hit;
          (pieces, s1) = splitFruit rnd a (hand hit) (fst acc);
          f1 = (snd acc)\<lparr>spawned := spawned (snd acc) @ pieces\<rparr>;
          s2 = s1\<lparr>heap := markFading 0 a (heap s1)\<rparr>;
          s3 = s2\<lparr>combo := combo s2 + 1\<rparr>;
          s4 = s3\<lparr>comboTimer := comboWindow s3\<rparr>;
          s5 = (if combo s4 > bestCombo s4 then s4\<lparr>bestCombo := combo s4\<rparr> else s4);
          genBonus = generation (heap s5 ! a) + 1;
          points = 10 * genBonus * max 1 (combo s5);
          s6 = s5\<lparr>score := score s5 + points\<rparr>
      in (s6, f1\<lparr>hits := hits f1 @ [hit]\<rparr>))"

text \<open>The loop over the hits; a bomb that brings the timer to zero leaves the loop.\<close>

fun resolveHits ::
  "(nat \<Rightarrow> real) \<Rightarrow> hitRecord list \<Rightarrow> gameEngine \<times> frameInfo \<Rightarrow> gameEngine \<times> frameInfo" where
  "resolveHits rnd [] acc = acc"
| "resolveHits rnd (hit # rest) acc =
     (let obj = heap (fst acc) ! object hit in
      if isBomb obj
      then (let acc1 = bombHit hit acc in
            if timeRemaining (fst acc1) \<le> 0
            then ((fst acc1)\<lparr>isGameOver := True\<rparr>, snd acc1)
            else resolveHits rnd rest acc1)
      else if isHeart obj then resolveHits rnd rest (heartHit hit acc)
      else resolveHits rnd rest (sliceFruit rnd hit acc))"

text \<open>
  Cleanup: \<open>indexOf\<close> followed by \<open>splice (idx, 1)\<close> removes the first occurrence of the
  reference, or nothing when it is no longer in the array.
\<close>

fun cleanup :: "ref list \<Rightarrow> gameEngine \<times> frameInfo \<Rightarrow> gameEngine \<times> frameInfo" where
  "cleanup [] acc = acc"
| "cleanup (a # rest) acc =
     (let s = fst acc;
          s1 = s\<lparr>heap := (heap s)[a := (heap s ! a)\<lparr>active := False\<rparr>]\<rparr>;
          s2 = s1\<lparr>objects := remove1 a (objects s1)\<rparr>
      in cleanup rest (s2, (snd acc)\<lparr>removed := removed (snd acc) @ [a]\<rparr>))"

definition update ::
  "(nat \<Rightarrow> real) \<Rightarrow> real \<Rightarrow> real \<Rightarrow> handPair \<Rightarrow> gameEngine \<Rightarrow> gameEngine \<times> frameInfo" where
  "update rnd now dt hs s =
     (if isGameOver s \<or> isPaused s then (s, emptyFrame)
      else
        (let s1 = s\<lparr>elapsed := elapsed s + dt\<rparr>;
             s2 = s1\<lparr>timeRemaining := timeRemaining s1 - dt\<rparr>
         in if timeRemaining s2 \<le> 0
            then (s2\<lparr>timeRemaining := 0, isGameOver := True\<rparr>, emptyFrame)
            else
              (let s3 = s2\<lparr>spawnInterval :=
                             max (minSpawnInterval s2) (1.5 - elapsed s2 * difficultyRate s2)\<rparr>;
                   s4 = s3\<lparr>bombChance := min (maxBombChance s3) (0.12 + elapsed s3 * 0.001)\<rparr>;
                   (s5, f1) = spawning rnd dt (s4, emptyFrame);
                   s6 = comboDecay dt s5;
                   (s7, toRemove) = physics dt s6;
                   (hts, cs) = checkAll (collisionSystem s7) now hs (heap s7) (sliceable s7);
                   s8 = s7\<lparr>collisionSystem := cs\<rparr>
               in cleanup toRemove (resolveHits rnd hts (s8, f1)))))"

text \<open>
  The states an engine can be in: a fresh engine, after any \<open>update\<close> with \<open>dt \<ge> 0\<close>,
  after \<open>reset\<close>, and after the pause button, which toggles \<open>isPaused\<close> unless the game is
  over.
\<close>

inductive reachable :: "gameEngine \<Rightarrow> bool" where
  reach_new: "reachable newGameEngine"
| reach_update: "reachable s \<Longrightarrow> 0 \<le> dt \<Longrightarrow> reachable (fst (update rnd now dt hs s))"
| reach_reset: "reachable s \<Longrightarrow> reachable (reset s)"
| reach_pause: "reachable s \<Longrightarrow> \<not> isGameOver s \<Longrightarrow> reachable (s\<lparr>isPaused := \<not> isPaused s\<rparr>)"

section \<open>Auxiliary predicates and concrete inputs\<close>

text \<open>
  While \<open>checkAll\<close> walks over the candidates, the cache entry of \<open>k\<close> stays as it is and no
  hit for \<open>k\<close> has been recorded.
\<close>

definition cooling ::
  "int \<Rightarrow> real \<Rightarrow> real \<Rightarrow> gameObject list \<Rightarrow> hitRecord list \<times> collisionSystem \<Rightarrow> bool" where
  "cooling k t0 cd hp acc \<longleftrightarrow>
     recentHits (snd acc) k = Some t0 \<and> hitCooldown (snd acc) = cd \<and>
     (\<forall>h \<in> set (fst acc). oid (hp ! object h) \<noteq> k)"

text \<open>A hand moving to the right at one screen width per second, and a hidden hand.\<close>

definition swipe :: "real \<Rightarrow> real \<Rightarrow> handInput" where
  "swipe x y = \<lparr> hx = x, hy = y, hvx = 1, hvy = 0, speed = 1, visible = True \<rparr>"

definition noHand :: handInput where
  "noHand = \<lparr> hx = 0, hy = 0, hvx = 0, hvy = 0, speed = 0, visible = False \<rparr>"

definition noHands :: handPair where
  "noHands = \<lparr> left = noHand, right = noHand \<rparr>"

definition fruitAt :: "int \<Rightarrow> real \<Rightarrow> real \<Rightarrow> int \<Rightarrow> gameObject" where
  "fruitAt k x y g =
     \<lparr> oid = k, otype = Some ''apple'', isBomb = False, isHeart = False,
       ox = x, oy = y, ovx = 0, ovy = 0.1, radius = 0.03, rotationSpeed = 0, rotation = 0,
       active = True, sliceCount = 0, maxSlices = 3 - g, fadeTimer = 0, fading = False,
       generation = g, halfSide = None, emoji = None \<rparr>"

text \<open>A collision system that stamped the object with id 1 at clock value 1000.\<close>

definition stampedSystem :: collisionSystem where
  "stampedSystem = newCollisionSystem\<lparr>recentHits := [1 \<mapsto> 1000]\<rparr>"

definition overlappingCalls :: "checkCall list" where
  "overlappingCalls =
     [(1100, \<lparr>left = swipe 0.5 0.5, right = swipe 0.5 0.5\<rparr>, [fruitAt 1 0.5 0.5 0], [0]),
      (1150, \<lparr>left = swipe 0.5 0.5, right = noHand\<rparr>, [fruitAt 1 0.5 0.5 0], [0])]"

text \<open>
  The engine's own fields, with the object store, the object array and the two runtime
  counters blanked out: two states with the same \<open>core\<close> differ at most in objects, ids and
  random draws.
\<close>

definition core :: "gameEngine \<Rightarrow> gameEngine" where
  "core s = s\<lparr>objects := [], heap := [], nextId := 0, randomCalls := 0\<rparr>"

text \<open>
  How the store evolves: it only grows, the kind, id, generation and radius of an object
  never change, an object that fades keeps fading and an inactive one stays inactive.
\<close>

definition heapGrows :: "gameObject list \<Rightarrow> gameObject list \<Rightarrow> bool" where
  "heapGrows hp hp' \<longleftrightarrow>
     length hp \<le> length hp' \<and>
     (\<forall>a < length hp.
        oid (hp' ! a) = oid (hp ! a) \<and> isBomb (hp' ! a) = isBomb (hp ! a) \<and>
        isHeart (hp' ! a) = isHeart (hp ! a) \<and> generation (hp' ! a) = generation (hp ! a) \<and>
        radius (hp' ! a) = radius (hp ! a) \<and>
        (fading (hp ! a) \<longrightarrow> fading (hp' ! a)) \<and> (active (hp' ! a) \<longrightarrow> active (hp ! a)))"

definition refsValid :: "gameEngine \<Rightarrow> bool" where
  "refsValid s \<longleftrightarrow> (\<forall>a \<in> set (objects s). a < length (heap s))"

text \<open>A random source that always answers \<open>1/2\<close>, and an engine holding one fruit.\<close>

definition halfRnd :: "nat \<Rightarrow> real" where
  "halfRnd n = 1 / 2"

definition oneFruit :: "int \<Rightarrow> gameEngine" where
  "oneFruit g = newGameEngine\<lparr>objects := [0], heap := [fruitAt 1 0.5 0.5 g], nextId := 1\<rparr>"

definition hitOn :: "ref \<Rightarrow> hitRecord" where
  "hitOn a = \<lparr>object = a, hand = swipe 0.5 0.5, side = Left\<rparr>"

text \<open>
  The fields that are set once and for all by the constructor, together with those that only
  the timer and spawning blocks write: \<open>settings\<close> blanks what the resolution of hits can
  change.
\<close>

definition settings :: "gameEngine \<Rightarrow> gameEngine" where
  "settings s =
     (core s)\<lparr>score := 0, combo := 0, bestCombo := 0, comboTimer := 0, isGameOver := False,
              timeRemaining := 0\<rparr>"

text \<open>
  Names for the stages of a call of \<open>update\<close> that gets past the timer: the state after the
  timer and difficulty blocks, and the state, removal queue and frame summary handed to
  collision detection.
\<close>

definition advance :: "real \<Rightarrow> gameEngine \<Rightarrow> gameEngine" where
  "advance dt s =
     s\<lparr>elapsed := elapsed s + dt, timeRemaining := timeRemaining s - dt,
       spawnInterval := max (minSpawnInterval s) (1.5 - (elapsed s + dt) * difficultyRate s),
       bombChance := min (maxBombChance s) (0.12 + (elapsed s + dt) * 0.001)\<rparr>"

definition preCollision ::
  "(nat \<Rightarrow> real) \<Rightarrow> real \<Rightarrow> gameEngine \<Rightarrow> (gameEngine \<times> ref list) \<times> frameInfo" where
  "preCollision rnd dt s =
     (let sf = spawning rnd dt (advance dt s, emptyFrame)
      in (physics dt (comboDecay dt (fst sf)), snd sf))"

definition detected ::
  "(nat \<Rightarrow> real) \<Rightarrow> real \<Rightarrow> real \<Rightarrow> handPair \<Rightarrow> gameEngine
     \<Rightarrow> hitRecord list \<times> collisionSystem" where
  "detected rnd now dt hs s =
     (let s7 = fst (fst (preCollision rnd dt s))
      in checkAll (collisionSystem s7) now hs (heap s7) (sliceable s7))"

definition inRange :: "gameEngine \<Rightarrow> bool" where
  "inRange s \<longleftrightarrow> 0 \<le> timeRemaining s \<and> timeRemaining s \<le> maxTime s \<and> 0 \<le> combo s"

text \<open>What holds of every state an engine can be in.\<close>

definition engineInv :: "gameEngine \<Rightarrow> bool" where
  "engineInv s \<longleftrightarrow>
     inRange s \<and> maxTime s = 60 \<and> comboWindow s = 1 \<and> minSpawnInterval s = 0.4 \<and>
     (isGameOver s \<or> 0 < timeRemaining s) \<and>
     (0 < combo s \<longrightarrow> 0 < comboTimer s) \<and>
     (isGameOver s \<or>
        spawnTimer s < max (minSpawnInterval s) (1.5 - elapsed s * difficultyRate s)) \<and>
     refsValid s"

text \<open>The part of the invariant that concerns the values the resolution of hits writes.\<close>

definition hitInv :: "gameEngine \<Rightarrow> bool" where
  "hitInv s \<longleftrightarrow>
     inRange s \<and> maxTime s = 60 \<and> comboWindow s = 1 \<and>
     (isGameOver s \<or> 0 < timeRemaining s) \<and> (0 < combo s \<longrightarrow> 0 < comboTimer s)"

text \<open>An engine holding a bomb (address 0) and a fruit (address 1).\<close>

definition bombAndFruit :: gameEngine where
  "bombAndFruit =
     newGameEngine\<lparr>objects := [0, 1],
                    heap := [(fruitAt 1 0.5 0.5 0)\<lparr>otype := Some ''bomb'', isBomb := True\<rparr>,
                             fruitAt 2 0.2 0.2 0],
                    nextId := 2\<rparr>"

text \<open>
  A concrete run. The first frame lasts \<open>1.5\<close> s with no hand in sight and a random source
  that always answers \<open>1/2\<close>: one lime is spawned and falls to \<open>(0.08, 1.015)\<close>.
\<close>

definition afterFirstFrame :: gameEngine where
  "afterFirstFrame =
     \<lparr> collisionSystem = newCollisionSystem,
       score = 0, combo = 0, bestCombo = 0, comboTimer = 0, comboWindow = 1,
       isGameOver = False, isPaused = False, elapsed = 1.5,
       timeRemaining = 28.5, maxTime = 60,
       spawnInterval = 1.4955, spawnTimer = 0, minSpawnInterval = 0.4,
       bombChance = 0.1215, maxBombChance = 0.25, heartChance = 0.06,
       difficultyRate = 0.003, gravity = 0.4,
       objects = [0],
       heap = [\<lparr> oid = 1, otype = Some ''lime'', isBomb = False, isHeart = False,
                 ox = 0.08, oy = 1.015, ovx = 0, ovy = 0.73, radius = 0.035,
                 rotationSpeed = 0, rotation = 0, active = True, sliceCount = 0,
                 maxSlices = 3, fadeTimer = 0, fading = False, generation = 0,
                 halfSide = None, emoji = None \<rparr>],
       nextId = 1, randomCalls = 9 \<rparr>"

text \<open>In the second frame the left hand swipes through the lime; \<open>dt\<close> is \<open>0\<close>.\<close>

definition sliceHands :: handPair where
  "sliceHands = \<lparr> left = swipe 0.08 1.015, right = noHand \<rparr>"

definition afterSlice :: gameEngine where
  "afterSlice =
     \<lparr> collisionSystem = newCollisionSystem\<lparr>recentHits := [1 \<mapsto> 1000]\<rparr>,
       score = 10, combo = 1, bestCombo = 1, comboTimer = 1, comboWindow = 1,
       isGameOver = False, isPaused = False, elapsed = 1.5,
       timeRemaining = 28.5, maxTime = 60,
       spawnInterval = 1.4955, spawnTimer = 0, minSpawnInterval = 0.4,
       bombChance = 0.1215, maxBombChance = 0.25, heartChance = 0.06,
       difficultyRate = 0.003, gravity = 0.4,
       objects = [0, 1, 2],
       heap = [\<lparr> oid = 1, otype = Some ''lime'', isBomb = False, isHeart = False,
                 ox = 0.08, oy = 1.015, ovx = 0, ovy = 0.73, radius = 0.035,
                 rotationSpeed = 0, rotation = 0, active = True, sliceCount = 0,
                 maxSlices = 3, fadeTimer = 0, fading = True, generation = 0,
                 halfSide = None, emoji = None \<rparr>,
               \<lparr> oid = 2, otype = Some ''lime'', isBomb = False, isHeart = False,
                 ox = 0.08, oy = 1.025, ovx = 0.05, ovy = 0.93, radius = 0.0245,
                 rotationSpeed = 0, rotation = 0, active = True, sliceCount = 0,
                 maxSlices = 2, fadeTimer = 0, fading = False, generation = 1,
                 halfSide = Some 0, emoji = None \<rparr>,
               \<lparr> oid = 3, otype = Some ''lime'', isBomb = False, isHeart = False,
                 ox = 0.08, oy = 1.005, ovx = 0.05, ovy = 0.43, radius = 0.0245,
                 rotationSpeed = 0, rotation = 0, active = True, sliceCount = 0,
                 maxSlices = 2, fadeTimer = 0, fading = False, generation = 1,
                 halfSide = Some 1, emoji = None \<rparr>],
       nextId = 3, randomCalls = 11 \<rparr>"

text \<open>A hit record whose object, looked up in the store \<open>hp\<close>, is a fruit.\<close>

definition isFruitHit :: "gameObject list \<Rightarrow> hitRecord \<Rightarrow> bool" where
  "isFruitHit hp h \<longleftrightarrow> \<not> isBomb (hp ! object h) \<and> \<not> isHeart (hp ! object h)"

text \<open>
  What the physics block queues for removal when nothing moves: an active object that is
  past the fade duration if it fades, and out of the bounds if it does not.
\<close>

definition expired :: "gameObject \<Rightarrow> bool" where
  "expired obj \<longleftrightarrow>
     active obj \<and>
     (if fading obj then fadeTimer obj > 0.6
      else oy obj > 1.2 \<or> ox obj < - 0.15 \<or> ox obj > 1.15)"

text \<open>Two objects that differ at most in their rotation.\<close>

definition atRest :: "gameObject \<Rightarrow> gameObject \<Rightarrow> bool" where
  "atRest obj obj' \<longleftrightarrow> obj'\<lparr>rotation := rotation obj\<rparr> = obj"

text \<open>
  A store, paired with a removal queue, in which nothing has moved with respect to \<open>hp0\<close>
  and whose queue holds expired objects of \<open>xs\<close> only.
\<close>

definition idle :: "gameObject list \<Rightarrow> ref list \<Rightarrow> gameObject list \<times> ref list \<Rightarrow> bool" where
  "idle hp0 xs acc \<longleftrightarrow>
     length (fst acc) = length hp0 \<and>
     (\<forall>b < length hp0. atRest (hp0 ! b) (fst acc ! b)) \<and>
     (\<forall>a \<in> set (snd acc). a \<in> set xs \<and> expired (hp0 ! a))"

text \<open>
  A run of successive calls of \<open>update\<close> with \<open>dt = 0\<close>, each with its own clock value and
  hands; for every call the run records the state before it, the state after it and the
  frame summary it returned.
\<close>

fun zeroDtRun ::
  "(nat \<Rightarrow> real) \<Rightarrow> (real \<times> handPair) list \<Rightarrow> gameEngine
     \<Rightarrow> (gameEngine \<times> gameEngine \<times> frameInfo) list" where
  "zeroDtRun rnd [] s = []"
| "zeroDtRun rnd ((now, hs) # calls) s =
     (let r = update rnd now 0 hs s in (s, fst r, snd r) # zeroDtRun rnd calls (fst r))"

text \<open>
  Score, combo and timer of a state, and what the resolution of one hit does to them: a bomb
  takes \<open>10\<close> s off the timer, not below \<open>0\<close>; a heart adds \<open>10\<close> s, not above \<open>mx\<close>; a fruit
  raises the combo by one and the score by \<open>10 \<times> (generation + 1) \<times> max(1, combo)\<close>. The kind
  and generation of the object are looked up in the store \<open>hp\<close>.
\<close>

definition scalars :: "gameEngine \<Rightarrow> int \<times> int \<times> real" where
  "scalars s = (score s, combo s, timeRemaining s)"

definition hitEffect ::
  "gameObject list \<Rightarrow> real \<Rightarrow> hitRecord \<Rightarrow> int \<times> int \<times> real \<Rightarrow> int \<times> int \<times> real" where
  "hitEffect hp mx h v =
     (let sc = fst v; cb = fst (snd v); t = snd (snd v); obj = hp ! object h in
      if isBomb obj then (sc, cb, max 0 (t - 10))
      else if isHeart obj then (sc, cb, min mx (t + 10))
      else (sc + 10 * (generation obj + 1) * max 1 (cb + 1), cb + 1, t))"

text \<open>
  Two more first frames of \<open>1.5\<close> s with no hand in sight: with a random source that always
  answers \<open>1/10\<close> a bomb is spawned, with one that always answers \<open>3/20\<close> a heart.
\<close>

definition steadyRnd :: "real \<Rightarrow> nat \<Rightarrow> real" where
  "steadyRnd r n = r"

definition afterBombFrame :: gameEngine where
  "afterBombFrame =
     \<lparr> collisionSystem = newCollisionSystem,
       score = 0, combo = 0, bestCombo = 0, comboTimer = 0, comboWindow = 1,
       isGameOver = False, isPaused = False, elapsed = 1.5,
       timeRemaining = 28.5, maxTime = 60,
       spawnInterval = 1.4955, spawnTimer = 0, minSpawnInterval = 0.4,
       bombChance = 0.1215, maxBombChance = 0.25, heartChance = 0.06,
       difficultyRate = 0.003, gravity = 0.4,
       objects = [0],
       heap = [\<lparr> oid = 1, otype = Some ''bomb'', isBomb = True, isHeart = False,
                 ox = - 0.032, oy = 0.955, ovx = - 0.048, ovy = 0.69, radius = 0.035,
                 rotationSpeed = - 0.032, rotation = - 0.032, active = True, sliceCount = 0,
                 maxSlices = 3, fadeTimer = 0, fading = False, generation = 0,
                 halfSide = None, emoji = None \<rparr>],
       nextId = 1, randomCalls = 7 \<rparr>"

definition afterHeartFrame :: gameEngine where
  "afterHeartFrame =
     \<lparr> collisionSystem = newCollisionSystem,
       score = 0, combo = 0, bestCombo = 0, comboTimer = 0, comboWindow = 1,
       isGameOver = False, isPaused = False, elapsed = 1.5,
       timeRemaining = 28.5, maxTime = 60,
       spawnInterval = 1.4955, spawnTimer = 0, minSpawnInterval = 0.4,
       bombChance = 0.1215, maxBombChance = 0.25, heartChance = 0.06,
       difficultyRate = 0.003, gravity = 0.4,
       objects = [0],
       heap = [\<lparr> oid = 1, otype = Some ''heart'', isBomb = False, isHeart = True,
                 ox = - 0.018, oy = 0.9625, ovx = - 0.042, ovy = 0.695, radius = 0.03,
                 rotationSpeed = - 0.028, rotation = - 0.028, active = True, sliceCount = 0,
                 maxSlices = 3, fadeTimer = 0, fading = False, generation = 0,
                 halfSide = None, emoji = None \<rparr>],
       nextId = 1, randomCalls = 7 \<rparr>"

text \<open>The left hand swiping through the point \<open>(x, y)\<close>, the right hand hidden.\<close>

definition handsAt :: "real \<Rightarrow> real \<Rightarrow> handPair" where
  "handsAt x y = \<lparr> left = swipe x y, right = noHand \<rparr>"

section \<open>Collision: the swept test\<close>



text \<open>A segment of length zero never registers, whatever the circle.\<close>

lemma lineCircleIntersect_degenerate:
  "lci_a x1 y1 x2 y2 = 0 \<Longrightarrow> \<not> lineCircleIntersect x1 y1 x2 y2 cx cy r"
  by (simp add: lineCircleIntersect_def Let_def)









section \<open>Collision: the hit cooldown\<close>

lemma checkOne_cooling:
  assumes "cooling k t0 cd hp acc"
  shows "cooling k t0 cd hp (checkOne now hs hp a acc)"
proof -
  obtain hts cs where acc: "acc = (hts, cs)" by (cases acc)
  show ?thesis
    using assms unfolding acc cooling_def checkOne_def Let_def
    by (auto split: option.splits)
qed

lemma fold_checkOne_cooling:
  "cooling k t0 cd hp acc \<Longrightarrow> cooling k t0 cd hp (fold (checkOne now hs hp) objs acc)"
  by (induction objs arbitrary: acc) (simp_all add: checkOne_cooling)

lemma checkAll_cooling:
  assumes "recentHits cs k = Some t0" and "now - t0 \<le> hitCooldown cs"
  shows "cooling k t0 (hitCooldown cs) hp (checkAll cs now hs hp objs)"
  unfolding checkAll_def
  by (rule fold_checkOne_cooling) (use assms in \<open>simp add: cooling_def pruneCooldowns_def\<close>)

text \<open>
  C7. If the cache holds the stamp \<open>t0\<close> for the id \<open>k\<close>, then in any run of \<open>checkAll\<close> calls
  whose clock values \<open>t\<close> all satisfy \<open>t - t0 \<le> hitCooldown\<close> (for a clock that does not go
  back: every call up to the end of the cooldown window), no hit record is returned for an
  object with id \<open>k\<close>, whatever the hands, the objects and their positions.
\<close>

theorem cooldown_suppresses_hits:
  assumes "recentHits cs k = Some t0"
      and "\<forall>c \<in> set calls. fst c - t0 \<le> hitCooldown cs"
  shows "k \<notin> set (checkAllRun cs calls)"
  using assms
proof (induction calls arbitrary: cs)
  case Nil
  then show ?case by simp
next
  case (Cons c calls)
  obtain now hs hp objs where c: "c = (now, hs, hp, objs)" by (cases c)
  from Cons.prems have w: "now - t0 \<le> hitCooldown cs" by (simp add: c)
  have cool: "cooling k t0 (hitCooldown cs) hp (checkAll cs now hs hp objs)"
    by (rule checkAll_cooling [OF Cons.prems(1) w])
  then have here: "k \<notin> oid ` (\<lambda>h. hp ! object h) ` set (fst (checkAll cs now hs hp objs))"
    by (auto simp: cooling_def)
  from cool have r: "recentHits (snd (checkAll cs now hs hp objs)) k = Some t0"
    and cd: "hitCooldown (snd (checkAll cs now hs hp objs)) = hitCooldown cs"
    by (simp_all add: cooling_def)
  have "k \<notin> set (checkAllRun (snd (checkAll cs now hs hp objs)) calls)"
    by (rule Cons.IH [OF r]) (use Cons.prems(2) cd in simp)
  with here show ?case
    by (auto simp: c Let_def)
qed

theorem cooldown_suppresses_hits_witness:
  "recentHits stampedSystem 1 = Some 1000
   \<and> map fst overlappingCalls = [1100, 1150] \<and> hitCooldown stampedSystem = 150
   \<and> 1 \<notin> set (checkAllRun stampedSystem overlappingCalls)"
proof -
  have r: "recentHits stampedSystem 1 = Some 1000"
    by (simp add: stampedSystem_def)
  have w: "\<forall>c \<in> set overlappingCalls. fst c - 1000 \<le> hitCooldown stampedSystem"
    by (simp add: overlappingCalls_def stampedSystem_def newCollisionSystem_def)
  have c: "map fst overlappingCalls = [1100, 1150] \<and> hitCooldown stampedSystem = 150"
    by (simp add: overlappingCalls_def stampedSystem_def newCollisionSystem_def)
  from cooldown_suppresses_hits [OF r w] r c show ?thesis by blast
qed

section \<open>Engine: what each operation leaves alone\<close>

lemma core_fields:
  "collisionSystem (core s) = collisionSystem s" "score (core s) = score s"
  "combo (core s) = combo s" "bestCombo (core s) = bestCombo s"
  "comboTimer (core s) = comboTimer s" "comboWindow (core s) = comboWindow s"
  "isGameOver (core s) = isGameOver s" "isPaused (core s) = isPaused s"
  "elapsed (core s) = elapsed s" "timeRemaining (core s) = timeRemaining s"
  "maxTime (core s) = maxTime s" "spawnInterval (core s) = spawnInterval s"
  "spawnTimer (core s) = spawnTimer s" "minSpawnInterval (core s) = minSpawnInterval s"
  "bombChance (core s) = bombChance s" "maxBombChance (core s) = maxBombChance s"
  "heartChance (core s) = heartChance s" "difficultyRate (core s) = difficultyRate s"
  "gravity (core s) = gravity s"
  by (simp_all add: core_def)

lemma core_eqD:
  assumes "core s' = core s"
  shows "collisionSystem s' = collisionSystem s" "score s' = score s"
  "combo s' = combo s" "bestCombo s' = bestCombo s"
  "comboTimer s' = comboTimer s" "comboWindow s' = comboWindow s"
  "isGameOver s' = isGameOver s" "isPaused s' = isPaused s"
  "elapsed s' = elapsed s" "timeRemaining s' = timeRemaining s"
  "maxTime s' = maxTime s" "spawnInterval s' = spawnInterval s"
  "spawnTimer s' = spawnTimer s" "minSpawnInterval s' = minSpawnInterval s"
  "bombChance s' = bombChance s" "maxBombChance s' = maxBombChance s"
  "heartChance s' = heartChance s" "difficultyRate s' = difficultyRate s"
  "gravity s' = gravity s"
  using assms core_fields by metis+

lemma core_upd [simp]:
  "core (s\<lparr>heap := hp\<rparr>) = core s" "core (s\<lparr>objects := obs\<rparr>) = core s"
  "core (s\<lparr>nextId := n\<rparr>) = core s" "core (s\<lparr>randomCalls := k\<rparr>) = core s"
  by (simp_all add: core_def)

lemma core_random [simp]: "core (snd (random rnd s)) = core s"
  by (simp add: random_def)

lemma core_generateId [simp]: "core (snd (generateId s)) = core s"
  by (simp add: generateId_def)

lemma heap_random [simp]: "heap (snd (random rnd s)) = heap s" "objects (snd (random rnd s)) = objects s"
  by (simp_all add: random_def)

lemma heap_generateId [simp]: "heap (snd (generateId s)) = heap s" "objects (snd (generateId s)) = objects s"
  by (simp_all add: generateId_def)

lemma makePiece_core: "core (snd (makePiece rnd a h g r px py sp i acc)) = core (snd acc)"
  by (simp add: makePiece_def Let_def split_def)

lemma splitFruit_core: "core (snd (splitFruit rnd a h s)) = core s"
  by (simp add: splitFruit_def Let_def split_def makePiece_core)


lemma splitFruit_terminal:
  assumes "2 \<le> generation (heap s ! a)"
  shows "splitFruit rnd a h s
           = ([], s\<lparr>heap := (heap s)[a := (heap s ! a)\<lparr>fading := True, fadeTimer := 0\<rparr>]\<rparr>)"
  using assms by (simp add: splitFruit_def Let_def)

lemma splitFruit_pieces:
  assumes "\<not> 2 \<le> generation (heap s ! a)"
  shows "\<exists>p0 p1.
           fst (splitFruit rnd a h s) = [length (heap s), Suc (length (heap s))] \<and>
           heap (snd (splitFruit rnd a h s)) = heap s @ [p0, p1] \<and>
           objects (snd (splitFruit rnd a h s))
             = objects s @ [length (heap s), Suc (length (heap s))] \<and>
           generation p0 = generation (heap s ! a) + 1 \<and>
           generation p1 = generation (heap s ! a) + 1 \<and>
           radius p0 = radius (heap s ! a) * 0.7 \<and> radius p1 = radius (heap s ! a) * 0.7 \<and>
           active p0 \<and> active p1 \<and> \<not> fading p0 \<and> \<not> fading p1 \<and>
           \<not> isBomb p0 \<and> \<not> isBomb p1 \<and> \<not> isHeart p0 \<and> \<not> isHeart p1"
  using assms
  by (simp add: splitFruit_def makePiece_def Let_def split_def random_def generateId_def
      nth_append)

text \<open>
  C2. \<open>_splitFruit\<close> on a valid object reference: below generation 2 it returns exactly the
  two addresses it has just allocated, appends both to \<open>this.objects\<close>, and each piece has
  the parent's generation plus one and the parent's radius times \<open>0.7\<close>; from generation 2
  on it returns the empty list, allocates nothing and leaves the object fading with
  \<open>fadeTimer = 0\<close>. This holds for every hand.
\<close>

theorem splitFruit_children:
  assumes "a < length (heap s)"
  shows "(generation (heap s ! a) < 2 \<longrightarrow>
            fst (splitFruit rnd a h s) = [length (heap s), length (heap s) + 1] \<and>
            length (heap (snd (splitFruit rnd a h s))) = length (heap s) + 2 \<and>
            objects (snd (splitFruit rnd a h s))
              = objects s @ [length (heap s), length (heap s) + 1] \<and>
            (\<forall>p \<in> set (fst (splitFruit rnd a h s)).
               generation (heap (snd (splitFruit rnd a h s)) ! p) = generation (heap s ! a) + 1 \<and>
               radius (heap (snd (splitFruit rnd a h s)) ! p) = radius (heap s ! a) * 0.7))
       \<and> (2 \<le> generation (heap s ! a) \<longrightarrow>
            fst (splitFruit rnd a h s) = [] \<and>
            objects (snd (splitFruit rnd a h s)) = objects s \<and>
            length (heap (snd (splitFruit rnd a h s))) = length (heap s) \<and>
            fading (heap (snd (splitFruit rnd a h s)) ! a) \<and>
            fadeTimer (heap (snd (splitFruit rnd a h s)) ! a) = 0)"
proof (cases "2 \<le> generation (heap s ! a)")
  case True
  with assms show ?thesis
    by (simp add: splitFruit_terminal)
next
  case False
  from splitFruit_pieces [OF False, of rnd h] obtain p0 p1 where
    "fst (splitFruit rnd a h s) = [length (heap s), Suc (length (heap s))]"
    "heap (snd (splitFruit rnd a h s)) = heap s @ [p0, p1]"
    "objects (snd (splitFruit rnd a h s)) = objects s @ [length (heap s), Suc (length (heap s))]"
    "generation p0 = generation (heap s ! a) + 1" "generation p1 = generation (heap s ! a) + 1"
    "radius p0 = radius (heap s ! a) * 0.7" "radius p1 = radius (heap s ! a) * 0.7"
    by blast
  with False show ?thesis
    by (simp add: nth_append)
qed


theorem splitFruit_children_witness:
  "fst (splitFruit halfRnd 0 (swipe 0.5 0.5) (oneFruit 0)) = [1, 2]
   \<and> objects (snd (splitFruit halfRnd 0 (swipe 0.5 0.5) (oneFruit 0))) = [0, 1, 2]
   \<and> generation (heap (snd (splitFruit halfRnd 0 (swipe 0.5 0.5) (oneFruit 0))) ! 1) = 1
   \<and> radius (heap (snd (splitFruit halfRnd 0 (swipe 0.5 0.5) (oneFruit 0))) ! 2) = 0.021
   \<and> fst (splitFruit halfRnd 0 (swipe 0.5 0.5) (oneFruit 2)) = []
   \<and> fading (heap (snd (splitFruit halfRnd 0 (swipe 0.5 0.5) (oneFruit 2))) ! 0)"
proof -
  have v: "0 < length (heap (oneFruit g))" for g
    by (simp add: oneFruit_def)
  have g: "generation (heap (oneFruit g) ! 0) = g" "radius (heap (oneFruit g) ! 0) = 0.03"
    "length (heap (oneFruit g)) = 1" "objects (oneFruit g) = [0]" for g
    by (simp_all add: oneFruit_def fruitAt_def)
  from splitFruit_children [OF v, of 0 halfRnd "swipe 0.5 0.5"]
       splitFruit_children [OF v, of 2 halfRnd "swipe 0.5 0.5"]
  show ?thesis
    by (simp add: g)
qed

lemma heapGrows_refl [simp]: "heapGrows hp hp"
  by (simp add: heapGrows_def)

lemma heapGrowsD:
  assumes "heapGrows hp hp'" and "a < length hp"
  shows "a < length hp'" "oid (hp' ! a) = oid (hp ! a)" "isBomb (hp' ! a) = isBomb (hp ! a)"
    "isHeart (hp' ! a) = isHeart (hp ! a)" "generation (hp' ! a) = generation (hp ! a)"
    "radius (hp' ! a) = radius (hp ! a)" "fading (hp ! a) \<Longrightarrow> fading (hp' ! a)"
    "active (hp' ! a) \<Longrightarrow> active (hp ! a)"
  using assms by (simp_all add: heapGrows_def)

lemma heapGrows_trans:
  assumes g1: "heapGrows h1 h2" and g2: "heapGrows h2 h3"
  shows "heapGrows h1 h3"
proof -
  have len: "length h1 \<le> length h3"
    using g1 g2 by (simp add: heapGrows_def)
  have "oid (h3 ! a) = oid (h1 ! a) \<and> isBomb (h3 ! a) = isBomb (h1 ! a) \<and>
        isHeart (h3 ! a) = isHeart (h1 ! a) \<and> generation (h3 ! a) = generation (h1 ! a) \<and>
        radius (h3 ! a) = radius (h1 ! a) \<and>
        (fading (h1 ! a) \<longrightarrow> fading (h3 ! a)) \<and> (active (h3 ! a) \<longrightarrow> active (h1 ! a))"
    if a: "a < length h1" for a
  proof -
    note d1 = heapGrowsD [OF g1 a]
    note d2 = heapGrowsD [OF g2 d1(1)]
    show ?thesis
      using d1(2-6) d2(2-6) d1(7) d2(7) d1(8) d2(8) by simp
  qed
  with len show ?thesis
    by (simp add: heapGrows_def)
qed

lemma heapGrows_append [simp]: "heapGrows hp (hp @ xs)"
  by (simp add: heapGrows_def nth_append)

lemma heapGrows_update:
  assumes "oid obj = oid (hp ! a)" "isBomb obj = isBomb (hp ! a)" "isHeart obj = isHeart (hp ! a)"
    "generation obj = generation (hp ! a)" "radius obj = radius (hp ! a)"
    "fading (hp ! a) \<longrightarrow> fading obj" "active obj \<longrightarrow> active (hp ! a)"
  shows "heapGrows hp (hp[a := obj])"
proof (cases "a < length hp")
  case True
  with assms show ?thesis
    by (simp add: heapGrows_def nth_list_update)
next
  case False
  then have "hp[a := obj] = hp" by (simp add: list_update_beyond)
  then show ?thesis by (simp only: heapGrows_refl)
qed

lemma heapGrows_markFading [simp]: "heapGrows hp (markFading ft a hp)"
  unfolding markFading_def by (rule heapGrows_update) simp_all

lemma heapGrows_splitFruit: "heapGrows (heap s) (heap (snd (splitFruit rnd a h s)))"
proof (cases "2 \<le> generation (heap s ! a)")
  case True
  have "heapGrows (heap s) ((heap s)[a := (heap s ! a)\<lparr>fading := True, fadeTimer := 0\<rparr>])"
    by (rule heapGrows_update) simp_all
  with True show ?thesis by (simp add: splitFruit_terminal)
next
  case False
  from splitFruit_pieces [OF False, of rnd h] show ?thesis by auto
qed

lemma heapGrows_fold_fadeOther: "heapGrows hp (fold (fadeOther a) xs hp)"
proof (induction xs arbitrary: hp)
  case Nil
  show ?case by simp
next
  case (Cons b xs)
  have "heapGrows hp (fadeOther a b hp)"
    by (simp add: fadeOther_def)
  from heapGrows_trans [OF this Cons.IH] show ?case by simp
qed

lemma bombHit_heapGrows: "heapGrows (heap (fst acc)) (heap (fst (bombHit hit acc)))"
  unfolding bombHit_def Let_def
  by (simp add: heapGrows_trans [OF heapGrows_markFading heapGrows_fold_fadeOther])

lemma heartHit_heapGrows: "heapGrows (heap (fst acc)) (heap (fst (heartHit hit acc)))"
  by (simp add: heartHit_def Let_def)

lemma sliceFruit_heapGrows: "heapGrows (heap (fst acc)) (heap (fst (sliceFruit rnd hit acc)))"
  unfolding sliceFruit_def Let_def split_def
  by (simp add: heapGrows_trans [OF heapGrows_splitFruit heapGrows_markFading])

lemma resolveHits_heapGrows:
  "heapGrows (heap (fst acc)) (heap (fst (resolveHits rnd hts acc)))"
proof (induction hts arbitrary: acc)
  case Nil
  show ?case by simp
next
  case (Cons hit rest)
  show ?case
    using heapGrows_trans [OF bombHit_heapGrows Cons.IH]
          heapGrows_trans [OF heartHit_heapGrows Cons.IH]
          heapGrows_trans [OF sliceFruit_heapGrows Cons.IH]
          bombHit_heapGrows [of acc hit]
    by (simp add: Let_def)
qed

lemma cleanup_heapGrows: "heapGrows (heap (fst acc)) (heap (fst (cleanup tr acc)))"
proof (induction tr arbitrary: acc)
  case Nil
  show ?case by simp
next
  case (Cons a rest)
  let ?hp = "(heap (fst acc))[a := (heap (fst acc) ! a)\<lparr>active := False\<rparr>]"
  let ?acc = "((fst acc)\<lparr>heap := ?hp, objects := remove1 a (objects (fst acc))\<rparr>,
               (snd acc)\<lparr>removed := removed (snd acc) @ [a]\<rparr>)"
  have step: "heapGrows (heap (fst acc)) ?hp"
    by (rule heapGrows_update) simp_all
  have unf: "cleanup (a # rest) acc = cleanup rest ?acc"
    by (simp add: Let_def)
  have "heapGrows ?hp (heap (fst (cleanup rest ?acc)))"
    using Cons.IH [of ?acc] by simp
  from heapGrows_trans [OF step this] show ?case
    by (simp only: unf)
qed


lemma sliceFruit_generation:
  assumes "a < length (heap s)"
  shows "generation (markFading 0 a (heap (snd (splitFruit rnd a h s))) ! a)
           = generation (heap s ! a)"
  using heapGrowsD(5) [OF heapGrows_trans [OF heapGrows_splitFruit heapGrows_markFading] assms]
  by simp

lemma sliceFruit_effect:
  assumes "object hit < length (heap s)"
  shows "combo (fst (sliceFruit rnd hit (s, f))) = combo s + 1"
    and "score (fst (sliceFruit rnd hit (s, f)))
           = score s + 10 * (generation (heap s ! object hit) + 1) * max 1 (combo s + 1)"
    and "comboTimer (fst (sliceFruit rnd hit (s, f))) = comboWindow s"
    and "timeRemaining (fst (sliceFruit rnd hit (s, f))) = timeRemaining s"
    and "hits (snd (sliceFruit rnd hit (s, f))) = hits f @ [hit]"
  using sliceFruit_generation [OF assms, of rnd "hand hit"]
        core_eqD [OF splitFruit_core, of rnd "object hit" "hand hit" s]
  by (simp_all add: sliceFruit_def Let_def split_def)

text \<open>
  C4. A hit on an object that is neither bomb nor heart is resolved by the slice branch,
  which raises \<open>combo\<close> by one and the score by \<open>10 \<times> (generation + 1) \<times> max(1, combo)\<close>, \<open>combo\<close>
  being the value after that increment.
\<close>

theorem slice_score:
  assumes "object hit < length (heap s)"
      and "\<not> isBomb (heap s ! object hit)" and "\<not> isHeart (heap s ! object hit)"
  shows "resolveHits rnd (hit # rest) (s, f) = resolveHits rnd rest (sliceFruit rnd hit (s, f))
       \<and> combo (fst (sliceFruit rnd hit (s, f))) = combo s + 1
       \<and> score (fst (sliceFruit rnd hit (s, f)))
           = score s + 10 * (generation (heap s ! object hit) + 1)
                          * max 1 (combo (fst (sliceFruit rnd hit (s, f))))"
  using assms(2,3) sliceFruit_effect(1,2) [OF assms(1), of rnd f]
  by (simp add: Let_def)


theorem slice_score_witness:
  "combo (fst (sliceFruit halfRnd (hitOn 0) (oneFruit 1, emptyFrame))) = 1
   \<and> score (fst (sliceFruit halfRnd (hitOn 0) (oneFruit 1, emptyFrame))) = 20"
proof -
  have v: "object (hitOn 0) < length (heap (oneFruit 1))"
    by (simp add: oneFruit_def hitOn_def)
  have b: "\<not> isBomb (heap (oneFruit 1) ! object (hitOn 0))"
    and h: "\<not> isHeart (heap (oneFruit 1) ! object (hitOn 0))"
    by (simp_all add: oneFruit_def hitOn_def fruitAt_def)
  have g: "generation (heap (oneFruit 1) ! object (hitOn 0)) = 1"
    "combo (oneFruit 1) = 0" "score (oneFruit 1) = 0"
    by (simp_all add: oneFruit_def hitOn_def fruitAt_def newGameEngine_def)
  from slice_score [OF v b h, of halfRnd "[]" emptyFrame] show ?thesis
    by (simp add: g)
qed

section \<open>Engine: spawning\<close>

lemma spawnObject_shape:
  "\<exists>obj. fst (spawnObject rnd s) = length (heap s) \<and>
         heap (snd (spawnObject rnd s)) = heap s @ [obj] \<and>
         objects (snd (spawnObject rnd s)) = objects s @ [length (heap s)] \<and>
         active obj \<and> \<not> fading obj \<and> oy obj = - 0.08 \<and> generation obj = 0"
  by (simp add: spawnObject_def Let_def split_def random_def generateId_def)

lemma spawnObject_core: "core (snd (spawnObject rnd s)) = core s"
  by (simp add: spawnObject_def Let_def split_def)

lemma spawnOne_core: "core (fst (spawnOne rnd count i acc)) = core (fst acc)"
  by (simp add: spawnOne_def Let_def split_def spawnObject_core)

lemma spawnOne_shape:
  "\<exists>obj. heap (fst (spawnOne rnd count i acc)) = heap (fst acc) @ [obj] \<and>
         objects (fst (spawnOne rnd count i acc)) = objects (fst acc) @ [length (heap (fst acc))] \<and>
         spawned (snd (spawnOne rnd count i acc)) = spawned (snd acc) @ [length (heap (fst acc))] \<and>
         removed (snd (spawnOne rnd count i acc)) = removed (snd acc) \<and>
         hits (snd (spawnOne rnd count i acc)) = hits (snd acc)"
proof -
  from spawnObject_shape [of rnd "fst acc"] obtain obj where
    "fst (spawnObject rnd (fst acc)) = length (heap (fst acc))"
    "heap (snd (spawnObject rnd (fst acc))) = heap (fst acc) @ [obj]"
    "objects (snd (spawnObject rnd (fst acc))) = objects (fst acc) @ [length (heap (fst acc))]"
    by blast
  then show ?thesis
    by (simp add: spawnOne_def Let_def split_def)
qed

lemma fold_spawnOne_core: "core (fst (fold (spawnOne rnd count) is acc)) = core (fst acc)"
  by (induction "is" arbitrary: acc) (simp_all add: spawnOne_core)

lemma fold_spawnOne_lengths:
  "length (spawned (snd (fold (spawnOne rnd count) is acc))) = length (spawned (snd acc)) + length is
   \<and> length (objects (fst (fold (spawnOne rnd count) is acc))) = length (objects (fst acc)) + length is
   \<and> length (heap (fst (fold (spawnOne rnd count) is acc))) = length (heap (fst acc)) + length is
   \<and> hits (snd (fold (spawnOne rnd count) is acc)) = hits (snd acc)
   \<and> removed (snd (fold (spawnOne rnd count) is acc)) = removed (snd acc)"
proof (induction "is" arbitrary: acc)
  case Nil
  show ?case by simp
next
  case (Cons i "is")
  from spawnOne_shape [of rnd count i acc] Cons.IH [of "spawnOne rnd count i acc"]
  show ?case by auto
qed

lemma batchCount_le_3:
  assumes "0 \<le> r" and "r < 1"
  shows "batchCount r e \<le> 3"
proof -
  have "r * min 3 (1 + e / 20) < 3"
  proof (cases "0 \<le> min 3 (1 + e / 20)")
    case True
    have "r * min 3 (1 + e / 20) \<le> 1 * min 3 (1 + e / 20)"
      using assms True by (intro mult_right_mono) simp_all
    moreover have "r * min 3 (1 + e / 20) < 3" if "min 3 (1 + e / 20) = 3"
      using assms that by simp
    ultimately show ?thesis
      by (cases "min 3 (1 + e / 20) = 3") auto
  next
    case False
    then have "r * min 3 (1 + e / 20) \<le> 0"
      using assms by (simp add: mult_nonneg_nonpos)
    then show ?thesis by simp
  qed
  then have "\<lfloor>r * min 3 (1 + e / 20)\<rfloor> < 3" by (simp add: floor_less_iff)
  then show ?thesis by (simp add: batchCount_def)
qed

lemma batchCount_ge_1:
  assumes "0 \<le> r" and "0 \<le> e"
  shows "1 \<le> batchCount r e"
proof -
  have "0 \<le> r * min 3 (1 + e / 20)"
    using assms by simp
  then show ?thesis by (simp add: batchCount_def)
qed

lemma batchCount_mono:
  assumes "0 \<le> r" and "e \<le> e'"
  shows "batchCount r e \<le> batchCount r e'"
proof -
  have "min 3 (1 + e / 20) \<le> min 3 (1 + e' / 20)"
    using assms(2) by simp
  then have "r * min 3 (1 + e / 20) \<le> r * min 3 (1 + e' / 20)"
    using assms(1) by (rule mult_left_mono)
  then show ?thesis
    by (simp add: batchCount_def floor_mono)
qed

lemma spawning_due:
  assumes "spawnInterval s \<le> spawnTimer s + dt"
  shows "spawnTimer (fst (spawning rnd dt (s, f))) = 0"
    and "length (spawned (snd (spawning rnd dt (s, f))))
           = length (spawned f) + nat (batchCount (rnd (randomCalls s)) (elapsed s))"
    and "length (objects (fst (spawning rnd dt (s, f))))
           = length (objects s) + nat (batchCount (rnd (randomCalls s)) (elapsed s))"
  using assms
        core_eqD(13) [OF fold_spawnOne_core]
        fold_spawnOne_lengths
  by (simp_all add: spawning_def Let_def split_def random_def)

lemma spawning_not_due:
  assumes "spawnTimer s + dt < spawnInterval s"
  shows "spawning rnd dt (s, f) = (s\<lparr>spawnTimer := spawnTimer s + dt\<rparr>, f)"
  using assms by (simp add: spawning_def Let_def)

text \<open>
  C5. With a random source that answers in \<open>[0, 1)\<close>: when the spawn timer, advanced by
  \<open>dt\<close>, reaches \<open>spawnInterval\<close> (and \<open>elapsed\<close> is not negative), the spawning block sets
  the timer to \<open>0\<close> and adds \<open>1 + floor (random() \<times> min(3, 1 + elapsed/20))\<close> objects to the
  frame's spawn list and to \<open>this.objects\<close>. Whatever \<open>elapsed\<close> is, that number is at most
  4, and both the factor \<open>min(3, 1 + elapsed/20)\<close> and the batch size grow weakly with
  \<open>elapsed\<close>.
\<close>

theorem spawn_batch:
  assumes "0 \<le> rnd (randomCalls s)" and "rnd (randomCalls s) < 1"
  shows "(spawnInterval s \<le> spawnTimer s + dt \<and> 0 \<le> elapsed s \<longrightarrow>
            spawnTimer (fst (spawning rnd dt (s, f))) = 0 \<and>
            int (length (spawned (snd (spawning rnd dt (s, f)))))
              = int (length (spawned f)) + batchCount (rnd (randomCalls s)) (elapsed s) \<and>
            int (length (objects (fst (spawning rnd dt (s, f)))))
              = int (length (objects s)) + batchCount (rnd (randomCalls s)) (elapsed s))
       \<and> batchCount (rnd (randomCalls s)) (elapsed s)
           = 1 + \<lfloor>rnd (randomCalls s) * min 3 (1 + elapsed s / 20)\<rfloor>
       \<and> (\<forall>e. batchCount (rnd (randomCalls s)) e \<le> 4)
       \<and> (\<forall>e e'. e \<le> e' \<longrightarrow>
             min 3 (1 + e / 20) \<le> min 3 (1 + e' / 20) \<and>
             batchCount (rnd (randomCalls s)) e \<le> batchCount (rnd (randomCalls s)) e')"
proof -
  have le4: "batchCount (rnd (randomCalls s)) e \<le> 4" for e
    using batchCount_le_3 [OF assms, of e] by simp
  have mono: "min 3 (1 + e / 20) \<le> min 3 (1 + e' / 20) \<and>
      batchCount (rnd (randomCalls s)) e \<le> batchCount (rnd (randomCalls s)) e'"
    if "e \<le> e'" for e e' :: real
    using batchCount_mono [OF assms(1) that] that by simp
  have due: "spawnTimer (fst (spawning rnd dt (s, f))) = 0 \<and>
            int (length (spawned (snd (spawning rnd dt (s, f)))))
              = int (length (spawned f)) + batchCount (rnd (randomCalls s)) (elapsed s) \<and>
            int (length (objects (fst (spawning rnd dt (s, f)))))
              = int (length (objects s)) + batchCount (rnd (randomCalls s)) (elapsed s)"
    if "spawnInterval s \<le> spawnTimer s + dt" and "0 \<le> elapsed s"
    using spawning_due [OF that(1), of rnd f] batchCount_ge_1 [OF assms(1) that(2)]
    by simp
  from le4 mono due show ?thesis
    by (simp add: batchCount_def)
qed


theorem spawn_batch_witness:
  "spawnTimer (fst (spawning halfRnd 2 (newGameEngine, emptyFrame))) = 0
   \<and> length (spawned (snd (spawning halfRnd 2 (newGameEngine, emptyFrame)))) = 1
   \<and> length (objects (fst (spawning halfRnd 2 (newGameEngine, emptyFrame)))) = 1
   \<and> batchCount (halfRnd 0) 60 \<le> 4"
proof -
  have r: "0 \<le> halfRnd (randomCalls newGameEngine)" "halfRnd (randomCalls newGameEngine) < 1"
    by (simp_all add: halfRnd_def)
  have c: "spawnInterval newGameEngine \<le> spawnTimer newGameEngine + 2"
    "0 \<le> elapsed newGameEngine" "elapsed newGameEngine = 0" "objects newGameEngine = []"
    "randomCalls newGameEngine = 0" "spawned emptyFrame = []"
    by (simp_all add: newGameEngine_def emptyFrame_def)
  have f: "\<lfloor>halfRnd 0\<rfloor> = 0"
    by (simp add: halfRnd_def)
  from spawn_batch [of halfRnd newGameEngine 2 emptyFrame] r c(1,2) show ?thesis
    by (simp add: c f)
qed

section \<open>Engine: the stages of update\<close>

lemma update_stopped:
  "isGameOver s \<or> isPaused s \<Longrightarrow> update rnd now dt hs s = (s, emptyFrame)"
  by (simp add: update_def)

lemma update_expired:
  "\<not> isGameOver s \<Longrightarrow> \<not> isPaused s \<Longrightarrow> timeRemaining s \<le> dt \<Longrightarrow>
   update rnd now dt hs s
     = (s\<lparr>elapsed := elapsed s + dt, timeRemaining := 0, isGameOver := True\<rparr>, emptyFrame)"
  by (simp add: update_def Let_def)

lemma update_running:
  assumes "\<not> isGameOver s" and "\<not> isPaused s" and "dt < timeRemaining s"
  shows "update rnd now dt hs s =
     (let p = preCollision rnd dt s; s7 = fst (fst p); c = detected rnd now dt hs s
      in cleanup (snd (fst p)) (resolveHits rnd (fst c) (s7\<lparr>collisionSystem := snd c\<rparr>, snd p)))"
  using assms
  by (simp add: update_def preCollision_def detected_def advance_def Let_def split_def)


lemma settings_fields:
  "collisionSystem (settings s) = collisionSystem s" "comboWindow (settings s) = comboWindow s"
  "isPaused (settings s) = isPaused s" "elapsed (settings s) = elapsed s"
  "maxTime (settings s) = maxTime s" "spawnInterval (settings s) = spawnInterval s"
  "spawnTimer (settings s) = spawnTimer s" "minSpawnInterval (settings s) = minSpawnInterval s"
  "bombChance (settings s) = bombChance s" "maxBombChance (settings s) = maxBombChance s"
  "heartChance (settings s) = heartChance s" "difficultyRate (settings s) = difficultyRate s"
  "gravity (settings s) = gravity s"
  by (simp_all add: settings_def core_def)

lemma settings_eqD:
  assumes "settings s' = settings s"
  shows "collisionSystem s' = collisionSystem s" "comboWindow s' = comboWindow s"
  "isPaused s' = isPaused s" "elapsed s' = elapsed s"
  "maxTime s' = maxTime s" "spawnInterval s' = spawnInterval s"
  "spawnTimer s' = spawnTimer s" "minSpawnInterval s' = minSpawnInterval s"
  "bombChance s' = bombChance s" "maxBombChance s' = maxBombChance s"
  "heartChance s' = heartChance s" "difficultyRate s' = difficultyRate s"
  "gravity s' = gravity s"
  using assms settings_fields by metis+

lemma settings_of_core: "core s' = core s \<Longrightarrow> settings s' = settings s"
  by (simp add: settings_def)

lemma settings_upd [simp]:
  "settings (s\<lparr>score := a\<rparr>) = settings s" "settings (s\<lparr>combo := b\<rparr>) = settings s"
  "settings (s\<lparr>bestCombo := c\<rparr>) = settings s" "settings (s\<lparr>comboTimer := d\<rparr>) = settings s"
  "settings (s\<lparr>isGameOver := e\<rparr>) = settings s" "settings (s\<lparr>timeRemaining := g\<rparr>) = settings s"
  "settings (s\<lparr>heap := hp\<rparr>) = settings s" "settings (s\<lparr>objects := obs\<rparr>) = settings s"
  "settings (s\<lparr>nextId := n\<rparr>) = settings s" "settings (s\<lparr>randomCalls := k\<rparr>) = settings s"
  by (simp_all add: settings_def core_def)

subsection \<open>spawning\<close>

lemma spawning_core:
  "core (fst (spawning rnd dt (s, f)))
     = core (s\<lparr>spawnTimer := spawnTimer (fst (spawning rnd dt (s, f)))\<rparr>)"
proof (cases "spawnInterval s \<le> spawnTimer s + dt")
  case True
  let ?s3 = "snd (random rnd (s\<lparr>spawnTimer := 0\<rparr>))"
  let ?n = "batchCount (fst (random rnd (s\<lparr>spawnTimer := 0\<rparr>))) (elapsed ?s3)"
  have unf: "spawning rnd dt (s, f) = fold (spawnOne rnd ?n) [0 ..< nat ?n] (?s3, f)"
    using True by (simp add: spawning_def Let_def split_def)
  have c: "core (fst (spawning rnd dt (s, f))) = core (s\<lparr>spawnTimer := 0\<rparr>)"
    unfolding unf by (simp add: fold_spawnOne_core)
  from core_eqD(13) [OF c] c show ?thesis by simp
next
  case False
  then show ?thesis by (simp add: spawning_not_due)
qed

lemma spawning_timer:
  "spawnTimer (fst (spawning rnd dt (s, f)))
     = (if spawnInterval s \<le> spawnTimer s + dt then 0 else spawnTimer s + dt)"
  using spawning_due(1) [of s dt rnd f] spawning_not_due [of s dt rnd f]
  by (cases "spawnInterval s \<le> spawnTimer s + dt") simp_all

lemma spawning_frame:
  "hits (snd (spawning rnd dt (s, f))) = hits f" "removed (snd (spawning rnd dt (s, f))) = removed f"
  using fold_spawnOne_lengths
  by (simp_all add: spawning_def Let_def split_def)

lemma spawnOne_refsValid:
  assumes "refsValid (fst acc)"
  shows "refsValid (fst (spawnOne rnd count i acc))"
proof -
  from spawnOne_shape [of rnd count i acc] obtain obj where
    "heap (fst (spawnOne rnd count i acc)) = heap (fst acc) @ [obj]"
    "objects (fst (spawnOne rnd count i acc)) = objects (fst acc) @ [length (heap (fst acc))]"
    by blast
  with assms show ?thesis
    by (auto simp: refsValid_def less_Suc_eq)
qed

lemma fold_spawnOne_refsValid:
  "refsValid (fst acc) \<Longrightarrow> refsValid (fst (fold (spawnOne rnd count) is acc))"
  by (induction "is" arbitrary: acc) (simp_all add: spawnOne_refsValid)

lemma spawning_refsValid:
  assumes "refsValid s"
  shows "refsValid (fst (spawning rnd dt (s, f)))"
proof -
  have "refsValid (snd (random rnd (s\<lparr>spawnTimer := 0\<rparr>)))"
    using assms by (simp add: refsValid_def random_def)
  then show ?thesis
    using assms
    by (simp add: spawning_def Let_def split_def fold_spawnOne_refsValid)
       (simp add: refsValid_def)
qed

subsection \<open>physics\<close>

lemma physicsStep_length: "length (fst (physicsStep g dt a acc)) = length (fst acc)"
  by (simp add: physicsStep_def Let_def)

lemma fold_physicsStep_length: "length (fst (fold (physicsStep g dt) xs acc)) = length (fst acc)"
  by (induction xs arbitrary: acc) (simp_all add: physicsStep_length)

lemma physics_core [simp]: "core (fst (physics dt s)) = core s"
  by (simp add: physics_def Let_def)

lemma physics_objects [simp]: "objects (fst (physics dt s)) = objects s"
  by (simp add: physics_def Let_def)

lemma physics_length [simp]: "length (heap (fst (physics dt s))) = length (heap s)"
  by (simp add: physics_def Let_def fold_physicsStep_length)

lemma physics_refsValid: "refsValid s \<Longrightarrow> refsValid (fst (physics dt s))"
  by (simp add: refsValid_def)


subsection \<open>hits\<close>

lemma markFading_length [simp]: "length (markFading ft a hp) = length hp"
  by (simp add: markFading_def)

lemma fold_fadeOther_length [simp]: "length (fold (fadeOther a) xs hp) = length hp"
  by (induction xs arbitrary: hp) (simp_all add: fadeOther_def)

lemma bombHit_effect:
  "core (fst (bombHit hit acc))
     = core ((fst acc)\<lparr>timeRemaining := max 0 (timeRemaining (fst acc) - 10)\<rparr>)"
  "objects (fst (bombHit hit acc)) = objects (fst acc)"
  "length (heap (fst (bombHit hit acc))) = length (heap (fst acc))"
  "hits (snd (bombHit hit acc)) = hits (snd acc) @ [hit]"
  "spawned (snd (bombHit hit acc)) = spawned (snd acc)"
  "removed (snd (bombHit hit acc)) = removed (snd acc)"
  by (simp_all add: bombHit_def Let_def core_def)

lemma heartHit_effect:
  "core (fst (heartHit hit acc))
     = core ((fst acc)\<lparr>timeRemaining := min (maxTime (fst acc)) (timeRemaining (fst acc) + 10)\<rparr>)"
  "objects (fst (heartHit hit acc)) = objects (fst acc)"
  "length (heap (fst (heartHit hit acc))) = length (heap (fst acc))"
  "hits (snd (heartHit hit acc)) = hits (snd acc) @ [hit]"
  "spawned (snd (heartHit hit acc)) = spawned (snd acc)"
  "removed (snd (heartHit hit acc)) = removed (snd acc)"
  by (simp_all add: heartHit_def Let_def core_def)

lemma sliceFruit_settings: "settings (fst (sliceFruit rnd hit acc)) = settings (fst acc)"
  by (simp add: sliceFruit_def Let_def split_def settings_of_core [OF splitFruit_core])

lemma sliceFruit_fields:
  "combo (fst (sliceFruit rnd hit acc)) = combo (fst acc) + 1"
  "comboTimer (fst (sliceFruit rnd hit acc)) = comboWindow (fst acc)"
  "timeRemaining (fst (sliceFruit rnd hit acc)) = timeRemaining (fst acc)"
  "isGameOver (fst (sliceFruit rnd hit acc)) = isGameOver (fst acc)"
  "hits (snd (sliceFruit rnd hit acc)) = hits (snd acc) @ [hit]"
  "removed (snd (sliceFruit rnd hit acc)) = removed (snd acc)"
  using core_eqD [OF splitFruit_core, of rnd "object hit" "hand hit" "fst acc"]
  by (simp_all add: sliceFruit_def Let_def split_def)

lemma splitFruit_refsValid:
  assumes "refsValid s"
  shows "refsValid (snd (splitFruit rnd a h s))"
proof (cases "2 \<le> generation (heap s ! a)")
  case True
  with assms show ?thesis
    by (simp add: splitFruit_terminal refsValid_def)
next
  case False
  from splitFruit_pieces [OF False, of rnd h] assms show ?thesis
    by (auto simp: refsValid_def less_Suc_eq)
qed

lemma sliceFruit_refsValid:
  assumes "refsValid (fst acc)"
  shows "refsValid (fst (sliceFruit rnd hit acc))"
  using splitFruit_refsValid [OF assms, of rnd "object hit" "hand hit"]
  by (simp add: sliceFruit_def Let_def split_def refsValid_def)

lemma resolveHits_preserves:
  assumes start: "P (fst acc)"
    and bomb: "\<And>hit acc. P (fst acc) \<Longrightarrow> 0 < timeRemaining (fst (bombHit hit acc))
                 \<Longrightarrow> P (fst (bombHit hit acc))"
    and over: "\<And>hit acc. P (fst acc) \<Longrightarrow> timeRemaining (fst (bombHit hit acc)) \<le> 0
                 \<Longrightarrow> P ((fst (bombHit hit acc))\<lparr>isGameOver := True\<rparr>)"
    and heart: "\<And>hit acc. P (fst acc) \<Longrightarrow> P (fst (heartHit hit acc))"
    and slice: "\<And>hit acc. P (fst acc) \<Longrightarrow> P (fst (sliceFruit rnd hit acc))"
  shows "P (fst (resolveHits rnd hts acc))"
  using start
proof (induction hts arbitrary: acc)
  case Nil
  then show ?case by simp
next
  case (Cons hit rest)
  show ?case
  proof (cases "isBomb (heap (fst acc) ! object hit)")
    case True
    show ?thesis
    proof (cases "timeRemaining (fst (bombHit hit acc)) \<le> 0")
      case over': True
      from over [OF Cons.prems over'] \<open>isBomb (heap (fst acc) ! object hit)\<close> over'
      show ?thesis by (simp add: Let_def)
    next
      case False
      then have "0 < timeRemaining (fst (bombHit hit acc))" by simp
      from Cons.IH [OF bomb [OF Cons.prems this]] True False
      show ?thesis by (simp add: Let_def)
    qed
  next
    case False
    with Cons.IH [OF heart [OF Cons.prems, of hit]]
         Cons.IH [OF slice [OF Cons.prems, of hit]]
    show ?thesis by (simp add: Let_def)
  qed
qed

lemma resolveHits_settings: "settings (fst (resolveHits rnd hts acc)) = settings (fst acc)"
proof -
  have "settings (fst (resolveHits rnd hts acc)) = settings (fst acc) \<and> True"
    by (rule resolveHits_preserves [where P = "\<lambda>s. settings s = settings (fst acc) \<and> True"])
       (simp_all add: sliceFruit_settings settings_of_core [OF bombHit_effect(1)]
          settings_of_core [OF heartHit_effect(1)])
  then show ?thesis by simp
qed

lemma resolveHits_inRange:
  assumes "inRange (fst acc)"
  shows "inRange (fst (resolveHits rnd hts acc))"
proof (rule resolveHits_preserves [where P = inRange, OF assms])
  fix hit and acc :: "gameEngine \<times> frameInfo"
  assume r: "inRange (fst acc)"
  from r core_eqD(3,10,11) [OF bombHit_effect(1), of hit acc]
  show "inRange (fst (bombHit hit acc))"
    and "inRange ((fst (bombHit hit acc))\<lparr>isGameOver := True\<rparr>)"
    by (simp_all add: inRange_def)
  from r core_eqD(3,10,11) [OF heartHit_effect(1), of hit acc]
  show "inRange (fst (heartHit hit acc))" by (simp add: inRange_def)
  from r sliceFruit_fields(1,3) [of rnd hit acc] settings_eqD(5) [OF sliceFruit_settings, of rnd hit acc]
  show "inRange (fst (sliceFruit rnd hit acc))" by (simp add: inRange_def)
qed

lemma resolveHits_refsValid:
  assumes "refsValid (fst acc)"
  shows "refsValid (fst (resolveHits rnd hts acc))"
proof (rule resolveHits_preserves [where P = refsValid, OF assms])
  fix hit and acc :: "gameEngine \<times> frameInfo"
  assume r: "refsValid (fst acc)"
  from r show "refsValid (fst (bombHit hit acc))"
    and "refsValid ((fst (bombHit hit acc))\<lparr>isGameOver := True\<rparr>)"
    by (simp_all add: refsValid_def bombHit_effect)
  from r show "refsValid (fst (heartHit hit acc))"
    by (simp add: refsValid_def heartHit_effect)
  from r show "refsValid (fst (sliceFruit rnd hit acc))"
    by (rule sliceFruit_refsValid)
qed

lemma resolveHits_hitInv:
  assumes "hitInv (fst acc)"
  shows "hitInv (fst (resolveHits rnd hts acc))"
proof (rule resolveHits_preserves [where P = hitInv, OF assms])
  fix hit and acc :: "gameEngine \<times> frameInfo"
  assume r: "hitInv (fst acc)"
  from r core_eqD(3,5,6,7,10,11) [OF bombHit_effect(1), of hit acc]
  show "0 < timeRemaining (fst (bombHit hit acc)) \<Longrightarrow> hitInv (fst (bombHit hit acc))"
    and "hitInv ((fst (bombHit hit acc))\<lparr>isGameOver := True\<rparr>)"
    by (auto simp: hitInv_def inRange_def max_def split: if_splits)
  from r core_eqD(3,5,6,7,10,11) [OF heartHit_effect(1), of hit acc]
  show "hitInv (fst (heartHit hit acc))" by (auto simp: hitInv_def inRange_def)
  from r sliceFruit_fields(1-4) [of rnd hit acc]
       settings_eqD(2,5) [OF sliceFruit_settings, of rnd hit acc]
  show "hitInv (fst (sliceFruit rnd hit acc))" by (simp add: hitInv_def inRange_def)
qed

subsection \<open>cleanup\<close>

lemma cleanup_facts:
  "core (fst (cleanup tr acc)) = core (fst acc)
   \<and> length (heap (fst (cleanup tr acc))) = length (heap (fst acc))
   \<and> set (objects (fst (cleanup tr acc))) \<subseteq> set (objects (fst acc))
   \<and> hits (snd (cleanup tr acc)) = hits (snd acc)
   \<and> spawned (snd (cleanup tr acc)) = spawned (snd acc)
   \<and> removed (snd (cleanup tr acc)) = removed (snd acc) @ tr"
proof (induction tr arbitrary: acc)
  case Nil
  show ?case by simp
next
  case (Cons a rest)
  let ?acc = "((fst acc)\<lparr>heap := (heap (fst acc))[a := (heap (fst acc) ! a)\<lparr>active := False\<rparr>],
                       objects := remove1 a (objects (fst acc))\<rparr>,
               (snd acc)\<lparr>removed := removed (snd acc) @ [a]\<rparr>)"
  have unf: "cleanup (a # rest) acc = cleanup rest ?acc"
    by (simp add: Let_def)
  have "set (remove1 a (objects (fst acc))) \<subseteq> set (objects (fst acc))"
    by (rule set_remove1_subset)
  with Cons.IH [of ?acc] show ?case
    unfolding unf by auto
qed

lemma cleanup_refsValid: "refsValid (fst acc) \<Longrightarrow> refsValid (fst (cleanup tr acc))"
  using cleanup_facts [of tr acc] by (auto simp: refsValid_def)


subsection \<open>update\<close>

lemmas spawning_fields = core_eqD(1-12,14-19) [OF spawning_core, simplified]
lemmas physics_fields = core_eqD [OF physics_core]

lemma preCollision_fields:
  "timeRemaining (fst (fst (preCollision rnd dt s))) = timeRemaining s - dt"
  "maxTime (fst (fst (preCollision rnd dt s))) = maxTime s"
  "comboWindow (fst (fst (preCollision rnd dt s))) = comboWindow s"
  "minSpawnInterval (fst (fst (preCollision rnd dt s))) = minSpawnInterval s"
  "difficultyRate (fst (fst (preCollision rnd dt s))) = difficultyRate s"
  "isGameOver (fst (fst (preCollision rnd dt s))) = isGameOver s"
  "isPaused (fst (fst (preCollision rnd dt s))) = isPaused s"
  "score (fst (fst (preCollision rnd dt s))) = score s"
  "elapsed (fst (fst (preCollision rnd dt s))) = elapsed s + dt"
  "combo (fst (fst (preCollision rnd dt s)))
     = (if 0 < combo s \<and> comboTimer s - dt \<le> 0 then 0 else combo s)"
  "comboTimer (fst (fst (preCollision rnd dt s)))
     = (if 0 < combo s then comboTimer s - dt else comboTimer s)"
  "spawnTimer (fst (fst (preCollision rnd dt s)))
     = (if max (minSpawnInterval s) (1.5 - (elapsed s + dt) * difficultyRate s)
            \<le> spawnTimer s + dt then 0 else spawnTimer s + dt)"
  "hits (snd (preCollision rnd dt s)) = []"
  "removed (snd (preCollision rnd dt s)) = []"
  by (simp_all add: preCollision_def Let_def comboDecay_def physics_fields spawning_fields
      spawning_timer spawning_frame advance_def emptyFrame_def)

lemma comboDecay_heap [simp]:
  "heap (comboDecay dt s) = heap s" "objects (comboDecay dt s) = objects s"
  by (simp_all add: comboDecay_def Let_def)

lemma preCollision_refsValid:
  assumes "refsValid s"
  shows "refsValid (fst (fst (preCollision rnd dt s)))"
proof -
  have "refsValid (advance dt s)"
    using assms by (simp add: refsValid_def advance_def)
  from spawning_refsValid [OF this, of rnd dt emptyFrame]
  have "refsValid (comboDecay dt (fst (spawning rnd dt (advance dt s, emptyFrame))))"
    by (simp add: refsValid_def)
  from physics_refsValid [OF this] show ?thesis
    by (simp add: preCollision_def Let_def)
qed

lemma update_keeps_range:
  assumes r: "inRange s" and dt: "0 \<le> dt"
  shows "inRange (fst (update rnd now dt hs s))"
proof -
  consider (stopped) "isGameOver s \<or> isPaused s"
    | (expired) "\<not> isGameOver s" "\<not> isPaused s" "timeRemaining s \<le> dt"
    | (running) "\<not> isGameOver s" "\<not> isPaused s" "dt < timeRemaining s"
    by fastforce
  then show ?thesis
  proof cases
    case stopped
    with r show ?thesis by (simp add: update_stopped)
  next
    case expired
    with r show ?thesis by (simp add: update_expired inRange_def)
  next
    case running
    let ?p = "preCollision rnd dt s"
    let ?c = "detected rnd now dt hs s"
    let ?start = "((fst (fst ?p))\<lparr>collisionSystem := snd ?c\<rparr>, snd ?p)"
    have "inRange (fst ?start)"
      using r dt running by (simp add: inRange_def preCollision_fields)
    then have "inRange (fst (resolveHits rnd (fst ?c) ?start))"
      by (rule resolveHits_inRange)
    with core_eqD(3,10,11) [OF conjunct1 [OF cleanup_facts],
        of "snd (fst ?p)" "resolveHits rnd (fst ?c) ?start"]
    have "inRange (fst (cleanup (snd (fst ?p)) (resolveHits rnd (fst ?c) ?start)))"
      by (simp add: inRange_def)
    then show ?thesis
      by (simp add: update_running [OF running] Let_def)
  qed
qed

section \<open>Engine: the invariant of reachable states\<close>

lemma timer_below: "0 < (si::real) \<Longrightarrow> (if si \<le> x then 0 else x) < si"
  by simp

lemma update_engineInv:
  assumes inv: "engineInv s" and dt: "0 \<le> dt"
  shows "engineInv (fst (update rnd now dt hs s))"
proof -
  consider (stopped) "isGameOver s \<or> isPaused s"
    | (expired) "\<not> isGameOver s" "\<not> isPaused s" "timeRemaining s \<le> dt"
    | (running) "\<not> isGameOver s" "\<not> isPaused s" "dt < timeRemaining s"
    by fastforce
  then show ?thesis
  proof cases
    case stopped
    with inv show ?thesis by (simp add: update_stopped)
  next
    case expired
    with inv show ?thesis
      by (simp add: update_expired engineInv_def inRange_def refsValid_def)
  next
    case running
    let ?p = "preCollision rnd dt s"
    let ?c = "detected rnd now dt hs s"
    let ?start = "((fst (fst ?p))\<lparr>collisionSystem := snd ?c\<rparr>, snd ?p)"
    let ?mid = "resolveHits rnd (fst ?c) ?start"
    let ?fin = "cleanup (snd (fst ?p)) ?mid"
    have upd: "fst (update rnd now dt hs s) = fst ?fin"
      by (simp add: update_running [OF running] Let_def)
    have "hitInv (fst ?start)"
      using inv dt running
      by (auto simp: engineInv_def hitInv_def inRange_def preCollision_fields)
    then have "hitInv (fst ?mid)"
      by (rule resolveHits_hitInv)
    with core_eqD(3,5,6,7,10,11) [OF conjunct1 [OF cleanup_facts], of "snd (fst ?p)" ?mid]
    have h: "hitInv (fst ?fin)"
      by (simp add: hitInv_def inRange_def)
    have set: "settings (fst ?fin) = settings (fst ?start)"
      using settings_of_core [OF conjunct1 [OF cleanup_facts], of "snd (fst ?p)" ?mid]
            resolveHits_settings [of rnd "fst ?c" ?start]
      by simp
    have fld: "elapsed (fst ?fin) = elapsed s + dt"
      "minSpawnInterval (fst ?fin) = minSpawnInterval s"
      "difficultyRate (fst ?fin) = difficultyRate s"
      "spawnTimer (fst ?fin)
         = (if max (minSpawnInterval s) (1.5 - (elapsed s + dt) * difficultyRate s)
                \<le> spawnTimer s + dt then 0 else spawnTimer s + dt)"
      using settings_eqD(4,7,8,12) [OF set]
      by (simp_all add: preCollision_fields)
    have ms: "minSpawnInterval (fst ?fin) = 0.4"
      using inv by (simp add: fld engineInv_def)
    then have "0 < max (minSpawnInterval s) (1.5 - (elapsed s + dt) * difficultyRate s)"
      by (simp add: fld max_def)
    then have sp: "spawnTimer (fst ?fin)
                < max (minSpawnInterval (fst ?fin)) (1.5 - elapsed (fst ?fin) * difficultyRate (fst ?fin))"
      unfolding fld by (rule timer_below)
    have "refsValid (fst ?start)"
      using preCollision_refsValid [of s rnd dt] inv
      by (simp add: refsValid_def engineInv_def)
    then have rv: "refsValid (fst ?fin)"
      by (intro cleanup_refsValid resolveHits_refsValid)
    note h' = h [unfolded hitInv_def]
    show ?thesis
      unfolding upd engineInv_def using h' ms sp rv by blast
  qed
qed

lemma reachable_engineInv: "reachable s \<Longrightarrow> engineInv s"
proof (induction rule: reachable.induct)
  case reach_new
  show ?case
    by (simp add: engineInv_def inRange_def refsValid_def newGameEngine_def)
next
  case (reach_update s dt rnd now hs)
  then show ?case by (simp add: update_engineInv)
next
  case (reach_reset s)
  then show ?case
    by (simp add: engineInv_def inRange_def refsValid_def reset_def)
next
  case (reach_pause s)
  then show ?case
    by (simp add: engineInv_def inRange_def refsValid_def)
qed

text \<open>
  C1. After every call of \<open>update\<close> with \<open>dt \<ge> 0\<close> on a state the engine can be in, the
  timer lies between \<open>0\<close> and \<open>maxTime\<close> and the combo is not negative. The timer block,
  the bomb penalty, the heart bonus, combo decay and the slice branch each keep these ranges
  (lemmas \<open>update_keeps_range\<close> and \<open>resolveHits_inRange\<close>).
\<close>

theorem timer_and_combo_stay_in_range:
  assumes "reachable s" and "0 \<le> dt"
  shows "0 \<le> timeRemaining (fst (update rnd now dt hs s))
       \<and> timeRemaining (fst (update rnd now dt hs s)) \<le> maxTime (fst (update rnd now dt hs s))
       \<and> 0 \<le> combo (fst (update rnd now dt hs s))"
proof -
  from reachable_engineInv [OF assms(1)] have "inRange s"
    by (simp add: engineInv_def)
  from update_keeps_range [OF this assms(2)] show ?thesis
    by (simp add: inRange_def)
qed

theorem timer_and_combo_stay_in_range_witness:
  "0 \<le> timeRemaining (fst (update halfRnd 0 31 noHands newGameEngine))
   \<and> timeRemaining (fst (update halfRnd 0 31 noHands newGameEngine))
       \<le> maxTime (fst (update halfRnd 0 31 noHands newGameEngine))
   \<and> 0 \<le> combo (fst (update halfRnd 0 31 noHands newGameEngine))"
  using timer_and_combo_stay_in_range [OF reach_new, of 31 halfRnd 0 noHands]
  by simp

section \<open>Engine: bombs\<close>

lemma fadeOther_active: "active (fadeOther a x hp ! b) = active (hp ! b)"
  by (cases "x < length hp")
     (auto simp: fadeOther_def markFading_def nth_list_update list_update_beyond)

lemma fadeOther_length [simp]: "length (fadeOther a x hp) = length hp"
  by (simp add: fadeOther_def)

lemma fadeOther_hit:
  assumes "b \<noteq> a" and "b < length hp" and "active (hp ! b)"
  shows "fading (fadeOther a b hp ! b)"
  using assms by (simp add: fadeOther_def markFading_def)

lemma fold_fadeOther_fades:
  assumes "b \<in> set xs" and "b \<noteq> a" and "b < length hp" and "active (hp ! b)"
  shows "fading (fold (fadeOther a) xs hp ! b)"
  using assms
proof (induction xs arbitrary: hp)
  case Nil
  then show ?case by simp
next
  case (Cons x xs)
  show ?case
  proof (cases "x = b")
    case True
    from fadeOther_hit [OF Cons.prems(2,3,4)]
    have "fading (fadeOther a b hp ! b)" .
    moreover have "b < length (fadeOther a b hp)"
      using Cons.prems(3) by simp
    ultimately have "fading (fold (fadeOther a) xs (fadeOther a b hp) ! b)"
      using heapGrowsD(7) [OF heapGrows_fold_fadeOther] by blast
    with True show ?thesis by simp
  next
    case False
    with Cons.prems(1) have "b \<in> set xs" by simp
    moreover have "b < length (fadeOther a x hp)"
      using Cons.prems(3) by simp
    moreover have "active (fadeOther a x hp ! b)"
      using Cons.prems(4) by (simp add: fadeOther_active)
    ultimately have "fading (fold (fadeOther a) xs (fadeOther a x hp) ! b)"
      using Cons.prems(2) by (intro Cons.IH)
    then show ?thesis by simp
  qed
qed

lemma bombHit_fades_others:
  assumes "b \<in> set (objects s)" and "b \<noteq> object hit" and "b < length (heap s)"
      and "active (heap s ! b)"
  shows "fading (heap (fst (bombHit hit (s, f))) ! b)"
proof -
  have "active (markFading 0 (object hit) (heap s) ! b)"
    using assms(2,4) by (simp add: markFading_def nth_list_update_neq)
  with assms(1,2,3)
  have "fading (fold (fadeOther (object hit)) (objects s) (markFading 0 (object hit) (heap s)) ! b)"
    by (intro fold_fadeOther_fades) simp_all
  then show ?thesis
    by (simp add: bombHit_def Let_def)
qed

lemma bombHit_fields:
  "timeRemaining (fst (bombHit hit acc)) = max 0 (timeRemaining (fst acc) - 10)"
  "combo (fst (bombHit hit acc)) = combo (fst acc)"
  "score (fst (bombHit hit acc)) = score (fst acc)"
  "isGameOver (fst (bombHit hit acc)) = isGameOver (fst acc)"
  using core_eqD(2,3,7,10) [OF bombHit_effect(1), of hit acc] by simp_all

lemma resolveHits_bomb:
  assumes "isBomb (heap s ! object hit)"
  shows "resolveHits rnd (hit # rest) (s, f)
           = (if timeRemaining s \<le> 10
              then ((fst (bombHit hit (s, f)))\<lparr>isGameOver := True\<rparr>, snd (bombHit hit (s, f)))
              else resolveHits rnd rest (bombHit hit (s, f)))"
  using assms by (simp add: Let_def bombHit_fields)

text \<open>
  C3. Let a hit on a bomb be the next one to be resolved, in a state \<open>s\<close> whose object array
  holds valid references, with \<open>rest\<close> the hits still to come and \<open>tr\<close> the removal queue of
  the call. The bomb branch lowers the timer to \<open>max(0, timeRemaining - 10)\<close> and leaves the
  combo alone; every other object of the array that is active and not fading in \<open>s\<close> is
  fading right after the branch and still when the call returns; if the timer has reached
  \<open>0\<close> the loop stops there with \<open>isGameOver\<close> set and the bomb as the last recorded hit,
  otherwise it goes on with the remaining hits.
\<close>

theorem bomb_clears_screen:
  assumes "isBomb (heap s ! object hit)" and "refsValid s"
  shows "timeRemaining (fst (bombHit hit (s, f))) = max 0 (timeRemaining s - 10)
       \<and> combo (fst (bombHit hit (s, f))) = combo s
       \<and> (\<forall>b \<in> set (objects s).
             b \<noteq> object hit \<and> active (heap s ! b) \<and> \<not> fading (heap s ! b) \<longrightarrow>
             fading (heap (fst (bombHit hit (s, f))) ! b) \<and>
             fading (heap (fst (cleanup tr (resolveHits rnd (hit # rest) (s, f)))) ! b))
       \<and> (timeRemaining s \<le> 10 \<longrightarrow>
             timeRemaining (fst (bombHit hit (s, f))) = 0 \<and>
             resolveHits rnd (hit # rest) (s, f)
               = ((fst (bombHit hit (s, f)))\<lparr>isGameOver := True\<rparr>, snd (bombHit hit (s, f))) \<and>
             isGameOver (fst (cleanup tr (resolveHits rnd (hit # rest) (s, f)))) \<and>
             hits (snd (cleanup tr (resolveHits rnd (hit # rest) (s, f)))) = hits f @ [hit])
       \<and> (10 < timeRemaining s \<longrightarrow>
             resolveHits rnd (hit # rest) (s, f) = resolveHits rnd rest (bombHit hit (s, f)))"
proof -
  let ?b = "bombHit hit (s, f)"
  let ?r = "resolveHits rnd (hit # rest) (s, f)"
  have grow: "heapGrows (heap (fst ?b)) (heap (fst (cleanup tr ?r)))"
  proof -
    have "heapGrows (heap (fst ?b)) (heap (fst ?r))"
      using resolveHits_heapGrows [of ?b rnd rest]
      by (simp add: resolveHits_bomb [OF assms(1)] del: resolveHits.simps)
    from heapGrows_trans [OF this cleanup_heapGrows] show ?thesis .
  qed
  have fade: "fading (heap (fst ?b) ! b) \<and> fading (heap (fst (cleanup tr ?r)) ! b)"
    if "b \<in> set (objects s)" "b \<noteq> object hit" "active (heap s ! b)" for b
  proof -
    from that(1) assms(2) have v: "b < length (heap s)"
      by (simp add: refsValid_def)
    from bombHit_fades_others [OF that(1,2) v that(3)]
    have 1: "fading (heap (fst ?b) ! b)" .
    have "b < length (heap (fst ?b))"
      using v by (simp add: bombHit_effect)
    from heapGrowsD(7) [OF grow this 1] 1 show ?thesis by simp
  qed
  have over: "isGameOver (fst (cleanup tr ?r)) \<and> hits (snd (cleanup tr ?r)) = hits f @ [hit]"
    if "timeRemaining s \<le> 10"
    using that core_eqD(7) [OF conjunct1 [OF cleanup_facts], of tr ?r] cleanup_facts [of tr ?r]
    by (simp add: resolveHits_bomb [OF assms(1)] bombHit_effect del: resolveHits.simps)
  show ?thesis
    using fade over
    by (simp add: bombHit_fields resolveHits_bomb [OF assms(1)] del: resolveHits.simps)
qed


theorem bomb_clears_screen_witness:
  "timeRemaining (fst (bombHit (hitOn 0) (bombAndFruit, emptyFrame))) = 20
   \<and> fading (heap (fst (bombHit (hitOn 0) (bombAndFruit, emptyFrame))) ! 1)
   \<and> fading (heap (fst (cleanup [] (resolveHits halfRnd [hitOn 0] (bombAndFruit, emptyFrame)))) ! 1)"
proof -
  have b: "isBomb (heap bombAndFruit ! object (hitOn 0))"
    by (simp add: bombAndFruit_def hitOn_def)
  have v: "refsValid bombAndFruit"
    by (simp add: refsValid_def bombAndFruit_def)
  have c: "objects bombAndFruit = [0, 1]" "object (hitOn 0) = 0"
    "active (heap bombAndFruit ! Suc 0)" "\<not> fading (heap bombAndFruit ! Suc 0)"
    "timeRemaining bombAndFruit = 30"
    by (simp_all add: bombAndFruit_def hitOn_def fruitAt_def newGameEngine_def)
  note t = bomb_clears_screen [OF b v, of emptyFrame "[]" halfRnd "[]"]
  from t have 1: "timeRemaining (fst (bombHit (hitOn 0) (bombAndFruit, emptyFrame)))
                    = max 0 (timeRemaining bombAndFruit - 10)"
    by (rule conjunct1)
  from t have "\<forall>b \<in> set (objects bombAndFruit).
      b \<noteq> object (hitOn 0) \<and> active (heap bombAndFruit ! b) \<and> \<not> fading (heap bombAndFruit ! b) \<longrightarrow>
      fading (heap (fst (bombHit (hitOn 0) (bombAndFruit, emptyFrame))) ! b) \<and>
      fading (heap (fst (cleanup [] (resolveHits halfRnd [hitOn 0] (bombAndFruit, emptyFrame)))) ! b)"
    by blast
  then have "fading (heap (fst (bombHit (hitOn 0) (bombAndFruit, emptyFrame))) ! Suc 0) \<and>
      fading (heap (fst (cleanup [] (resolveHits halfRnd [hitOn 0] (bombAndFruit, emptyFrame)))) ! Suc 0)"
    by (simp add: c del: resolveHits.simps cleanup.simps)
  with 1 show ?thesis
    by (simp add: c del: resolveHits.simps cleanup.simps)
qed

section \<open>A concrete run of two frames\<close>

lemma floor_half: "\<lfloor>43 / 80 :: real\<rfloor> = 0" "\<lfloor>3::real\<rfloor> = 3"
  by (simp_all add: floor_eq_iff)

lemma preCollision_first:
  "preCollision halfRnd 1.5 newGameEngine
     = ((afterFirstFrame, []), \<lparr>spawned = [0], removed = [], hits = []\<rparr>)"
  apply (simp add: preCollision_def advance_def spawning_def Let_def split_def random_def batchCount_def halfRnd_def newGameEngine_def emptyFrame_def floor_half)
  apply (simp add: spawnOne_def spawnObject_def Let_def split_def random_def generateId_def halfRnd_def  fruitType_def FRUIT_TYPES_def)
  apply (simp add: comboDecay_def physics_def physicsStep_def integrate_def Let_def afterFirstFrame_def eval_nat_numeral)
  done

lemma detected_first:
  "detected halfRnd 0 1.5 noHands newGameEngine = ([], newCollisionSystem)"
  unfolding detected_def preCollision_first
  by (simp add: Let_def checkAll_def checkOne_def sliceable_def
      afterFirstFrame_def pruneCooldowns_def newCollisionSystem_def checkCollision_def
      noHands_def noHand_def)

lemma update_first:
  "update halfRnd 0 1.5 noHands newGameEngine
     = (afterFirstFrame, \<lparr>spawned = [0], removed = [], hits = []\<rparr>)"
proof -
  have r: "\<not> isGameOver newGameEngine" "\<not> isPaused newGameEngine"
    "1.5 < timeRemaining newGameEngine"
    by (simp_all add: newGameEngine_def)
  show ?thesis
    unfolding update_running [OF r] preCollision_first detected_first
    by (simp add: Let_def) (simp add: afterFirstFrame_def)
qed

lemma preCollision_second:
  "preCollision halfRnd 0 afterFirstFrame = ((afterFirstFrame, []), emptyFrame)"
  apply (simp add: preCollision_def advance_def spawning_def Let_def split_def  afterFirstFrame_def emptyFrame_def )
  apply (simp add: comboDecay_def physics_def physicsStep_def integrate_def Let_def)
  done

lemma detected_second:
  "detected halfRnd 1000 0 sliceHands afterFirstFrame
     = ([\<lparr>object = 0, hand = swipe 0.08 1.015, side = Left\<rparr>],
        newCollisionSystem\<lparr>recentHits := [1 \<mapsto> 1000]\<rparr>)"
  unfolding detected_def preCollision_second
  by (simp add: Let_def checkAll_def checkOne_def sliceable_def
      afterFirstFrame_def pruneCooldowns_def newCollisionSystem_def checkCollision_def
      sliceHands_def swipe_def)

lemma update_second:
  "update halfRnd 1000 0 sliceHands afterFirstFrame
     = (afterSlice,
        \<lparr>spawned = [1, 2], removed = [],
          hits = [\<lparr>object = 0, hand = swipe 0.08 1.015, side = Left\<rparr>]\<rparr>)"
proof -
  have r: "\<not> isGameOver afterFirstFrame" "\<not> isPaused afterFirstFrame"
    "0 < timeRemaining afterFirstFrame"
    by (simp_all add: afterFirstFrame_def)
  show ?thesis
    unfolding update_running [OF r] preCollision_second detected_second
    by (simp add: Let_def sliceFruit_def splitFruit_def makePiece_def split_def random_def
        generateId_def markFading_def afterFirstFrame_def swipe_def halfRnd_def emptyFrame_def
        afterSlice_def)
qed

lemma afterSlice_fields:
  "score afterSlice = 10" "combo afterSlice = 1" "comboTimer afterSlice = 1"
  "timeRemaining afterSlice = 28.5" "\<not> isGameOver afterSlice" "\<not> isPaused afterSlice"
  by (simp_all add: afterSlice_def)

lemma reachable_afterFirstFrame: "reachable afterFirstFrame"
proof -
  have "reachable (fst (update halfRnd 0 1.5 noHands newGameEngine))"
    by (rule reach_update [OF reach_new]) simp
  then show ?thesis by (simp only: update_first fst_conv)
qed

lemma reachable_afterSlice: "reachable afterSlice"
proof -
  have "reachable (fst (update halfRnd 1000 0 sliceHands afterFirstFrame))"
    by (rule reach_update [OF reachable_afterFirstFrame]) simp
  then show ?thesis by (simp only: update_second fst_conv)
qed

section \<open>Engine: combo decay and calls with dt = 0\<close>

subsection \<open>hits recorded by the loop\<close>

lemma resolveHits_hits_grow:
  "\<exists>done. hits (snd (resolveHits rnd hts acc)) = hits (snd acc) @ done
          \<and> set done \<subseteq> set hts \<and> (hts \<noteq> [] \<longrightarrow> done \<noteq> [])"
proof (induction hts arbitrary: acc)
  case Nil
  show ?case by simp
next
  case (Cons hit rest)
  from Cons.IH [of "bombHit hit acc"] obtain d1 where d1:
    "hits (snd (resolveHits rnd rest (bombHit hit acc))) = hits (snd acc) @ hit # d1"
    "set d1 \<subseteq> set rest"
    by (auto simp: bombHit_effect)
  from Cons.IH [of "heartHit hit acc"] obtain d2 where d2:
    "hits (snd (resolveHits rnd rest (heartHit hit acc))) = hits (snd acc) @ hit # d2"
    "set d2 \<subseteq> set rest"
    by (auto simp: heartHit_effect)
  from Cons.IH [of "sliceFruit rnd hit acc"] obtain d3 where d3:
    "hits (snd (resolveHits rnd rest (sliceFruit rnd hit acc))) = hits (snd acc) @ hit # d3"
    "set d3 \<subseteq> set rest"
    by (auto simp: sliceFruit_fields)
  show ?case
  proof (cases "isBomb (heap (fst acc) ! object hit)")
    case True
    show ?thesis
    proof (cases "timeRemaining (fst (bombHit hit acc)) \<le> 0")
      case True
      with \<open>isBomb (heap (fst acc) ! object hit)\<close> show ?thesis
        by (simp add: Let_def bombHit_effect)
    next
      case False
      with True d1 show ?thesis
        by (intro exI [of _ "hit # d1"]) (auto simp: Let_def)
    qed
  next
    case False
    show ?thesis
    proof (cases "isHeart (heap (fst acc) ! object hit)")
      case True
      with False d2 show ?thesis
        by (intro exI [of _ "hit # d2"]) (auto simp: Let_def)
    next
      case h: False
      with False d3 show ?thesis
        by (intro exI [of _ "hit # d3"]) (auto simp: Let_def)
    qed
  qed
qed

lemma resolveHits_no_hits:
  assumes "hits (snd (resolveHits rnd hts acc)) = []"
  shows "hts = []"
  using resolveHits_hits_grow [of rnd hts acc] assms by auto

lemma resolveHits_hits_subset:
  "set (hits (snd (resolveHits rnd hts acc))) \<subseteq> set (hits (snd acc)) \<union> set hts"
  using resolveHits_hits_grow [of rnd hts acc] by auto

lemma isFruitHit_heapGrows:
  assumes "heapGrows hp hp'" and "object h < length hp"
  shows "isFruitHit hp' h = isFruitHit hp h"
  using heapGrowsD(3,4) [OF assms] by (simp add: isFruitHit_def)

lemma resolveHits_combo_count:
  assumes "heapGrows hp0 (heap (fst acc))" and "\<forall>h \<in> set hts. object h < length hp0"
  shows "combo (fst (resolveHits rnd hts acc))
           + int (length (filter (isFruitHit hp0) (hits (snd acc))))
         = combo (fst acc)
           + int (length (filter (isFruitHit hp0) (hits (snd (resolveHits rnd hts acc)))))"
  using assms
proof (induction hts arbitrary: acc)
  case Nil
  show ?case by simp
next
  case (Cons hit rest)
  from Cons.prems(2) have v: "object hit < length hp0" and vr: "\<forall>h \<in> set rest. object h < length hp0"
    by simp_all
  have kind: "isBomb (heap (fst acc) ! object hit) = isBomb (hp0 ! object hit)"
    "isHeart (heap (fst acc) ! object hit) = isHeart (hp0 ! object hit)"
    using heapGrowsD(3,4) [OF Cons.prems(1) v] by simp_all
  show ?case
  proof (cases "isBomb (hp0 ! object hit)")
    case True
    then have nf: "\<not> isFruitHit hp0 hit" by (simp add: isFruitHit_def)
    have g: "heapGrows hp0 (heap (fst (bombHit hit acc)))"
      by (rule heapGrows_trans [OF Cons.prems(1) bombHit_heapGrows])
    from Cons.IH [OF g vr] True nf kind show ?thesis
      by (simp add: Let_def bombHit_effect bombHit_fields)
  next
    case False
    show ?thesis
    proof (cases "isHeart (hp0 ! object hit)")
      case True
      then have nf: "\<not> isFruitHit hp0 hit" by (simp add: isFruitHit_def)
      have g: "heapGrows hp0 (heap (fst (heartHit hit acc)))"
        by (rule heapGrows_trans [OF Cons.prems(1) heartHit_heapGrows])
      from Cons.IH [OF g vr] True False nf kind
           core_eqD(3) [OF heartHit_effect(1), of hit acc]
      show ?thesis
        by (simp add: Let_def heartHit_effect)
    next
      case h: False
      with False have f: "isFruitHit hp0 hit" by (simp add: isFruitHit_def)
      have g: "heapGrows hp0 (heap (fst (sliceFruit rnd hit acc)))"
        by (rule heapGrows_trans [OF Cons.prems(1) sliceFruit_heapGrows])
      from Cons.IH [OF g vr] False h f kind show ?thesis
        by (simp add: Let_def sliceFruit_fields)
    qed
  qed
qed

lemma checkOne_objects:
  "object ` set (fst (checkOne now hs hp a acc)) \<subseteq> insert a (object ` set (fst acc))"
  by (auto simp: checkOne_def Let_def split: option.splits)

lemma fold_checkOne_objects:
  "object ` set (fst (fold (checkOne now hs hp) objs acc)) \<subseteq> set objs \<union> object ` set (fst acc)"
proof (induction objs arbitrary: acc)
  case Nil
  show ?case by simp
next
  case (Cons a objs)
  from Cons.IH [of "checkOne now hs hp a acc"] checkOne_objects [of now hs hp a acc]
  show ?case by auto
qed

lemma checkAll_objects: "object ` set (fst (checkAll cs now hs hp objs)) \<subseteq> set objs"
  using fold_checkOne_objects [of now hs hp objs "([], pruneCooldowns now cs)"]
  by (simp add: checkAll_def)

lemma detected_valid:
  assumes "refsValid s" and "h \<in> set (fst (detected rnd now dt hs s))"
  shows "object h < length (heap (fst (fst (preCollision rnd dt s))))"
proof -
  let ?s7 = "fst (fst (preCollision rnd dt s))"
  from assms(2) have "object h \<in> object ` set (fst (checkAll (collisionSystem ?s7) now hs (heap ?s7) (sliceable ?s7)))"
    by (simp add: detected_def Let_def)
  with checkAll_objects have "object h \<in> set (sliceable ?s7)" by blast
  then have "object h \<in> set (objects ?s7)" by (simp add: sliceable_def)
  with preCollision_refsValid [OF assms(1), of rnd dt] show ?thesis
    by (simp add: refsValid_def)
qed

text \<open>
  C6, as the code has it. Take a state the engine can be in, running (neither over nor
  paused) and with more than \<open>dt\<close> left on the timer, so that the call gets past the timer
  block; let the combo be positive and \<open>comboTimer \<le> dt\<close>. Then the state handed to collision
  detection has combo \<open>0\<close>, and when the call returns the combo is the number of fruit hits
  resolved in this very call: \<open>0\<close> without a slice, \<open>1\<close> after one slice, never the old streak
  continued.
\<close>

theorem expired_combo_restarts:
  assumes "reachable s" and "\<not> isGameOver s" and "\<not> isPaused s" and "dt < timeRemaining s"
      and "0 < combo s" and "comboTimer s \<le> dt"
  shows "combo (fst (fst (preCollision rnd dt s))) = 0
       \<and> combo (fst (update rnd now dt hs s))
           = int (length (filter (isFruitHit (heap (fst (update rnd now dt hs s))))
                                 (hits (snd (update rnd now dt hs s)))))"
proof -
  let ?p = "preCollision rnd dt s"
  let ?s7 = "fst (fst ?p)"
  let ?c = "detected rnd now dt hs s"
  let ?start = "(?s7\<lparr>collisionSystem := snd ?c\<rparr>, snd ?p)"
  let ?mid = "resolveHits rnd (fst ?c) ?start"
  let ?fin = "cleanup (snd (fst ?p)) ?mid"
  have upd: "update rnd now dt hs s = ?fin"
    by (simp add: update_running [OF assms(2,3,4)] Let_def)
  have rv: "refsValid s"
    using reachable_engineInv [OF assms(1)] by (simp add: engineInv_def)
  have c0: "combo ?s7 = 0"
    using assms(5,6) by (simp add: preCollision_fields)
  have valid: "\<forall>h \<in> set (fst ?c). object h < length (heap ?s7)"
    using detected_valid [OF rv] by blast
  have "combo (fst ?mid) + int (length (filter (isFruitHit (heap ?s7)) (hits (snd ?start))))
        = combo (fst ?start) + int (length (filter (isFruitHit (heap ?s7)) (hits (snd ?mid))))"
    by (rule resolveHits_combo_count) (use valid in simp_all)
  then have mid: "combo (fst ?mid) = int (length (filter (isFruitHit (heap ?s7)) (hits (snd ?mid))))"
    using c0 by (simp add: preCollision_fields)
  have sub: "set (hits (snd ?mid)) \<subseteq> set (fst ?c)"
    using resolveHits_hits_subset [of rnd "fst ?c" ?start] by (simp add: preCollision_fields)
  have g1: "heapGrows (heap (fst ?start)) (heap (fst ?mid))"
    by (rule resolveHits_heapGrows)
  have g2: "heapGrows (heap (fst ?mid)) (heap (fst ?fin))"
    by (rule cleanup_heapGrows)
  from heapGrows_trans [OF g1 g2] have grow: "heapGrows (heap ?s7) (heap (fst ?fin))"
    by simp
  have "filter (isFruitHit (heap (fst ?fin))) (hits (snd ?mid))
        = filter (isFruitHit (heap ?s7)) (hits (snd ?mid))"
    by (rule filter_cong [OF refl]) (use sub valid isFruitHit_heapGrows [OF grow] in blast)
  with mid cleanup_facts [of "snd (fst ?p)" ?mid]
       core_eqD(3) [OF conjunct1 [OF cleanup_facts], of "snd (fst ?p)" ?mid]
  have "combo (fst ?fin) = int (length (filter (isFruitHit (heap (fst ?fin))) (hits (snd ?fin))))"
    by simp
  with c0 show ?thesis
    by (simp only: upd simp_thms)
qed


theorem expired_combo_restarts_witness:
  "combo (fst (fst (preCollision halfRnd 1 afterSlice))) = 0
   \<and> combo (fst (update halfRnd 2000 1 sliceHands afterSlice))
       = int (length (filter (isFruitHit (heap (fst (update halfRnd 2000 1 sliceHands afterSlice))))
                             (hits (snd (update halfRnd 2000 1 sliceHands afterSlice)))))"
proof -
  have t: "1 < timeRemaining afterSlice" and c: "0 < combo afterSlice"
    and d: "comboTimer afterSlice \<le> 1"
    by (simp_all add: afterSlice_fields)
  from expired_combo_restarts [OF reachable_afterSlice afterSlice_fields(5,6) t c d]
  show ?thesis .
qed

text \<open>
  The claim C6 as it is worded fails where the call does not get to the combo-decay step.
  After the two frames above the combo is \<open>1\<close> with one second of combo time left and
  \<open>28.5\<close> s on the timer; a call with \<open>dt = 30\<close> ends the game in the timer block and returns
  with the combo still \<open>1\<close>.
\<close>

theorem expired_timer_keeps_combo:
  "reachable afterSlice
   \<and> 0 < combo afterSlice \<and> comboTimer afterSlice \<le> 30
   \<and> combo (fst (update halfRnd 2000 30 noHands afterSlice)) = 1
   \<and> isGameOver (fst (update halfRnd 2000 30 noHands afterSlice))"
proof -
  have "timeRemaining afterSlice \<le> 30"
    by (simp add: afterSlice_fields)
  from update_expired [OF afterSlice_fields(5,6) this, of halfRnd 2000 noHands]
  show ?thesis
    using reachable_afterSlice by (simp add: afterSlice_fields)
qed

lemma atRest_refl [simp]: "atRest obj obj"
  by (simp add: atRest_def)

lemma atRest_fields:
  assumes "atRest obj obj'"
  shows "active obj' = active obj" "fading obj' = fading obj" "fadeTimer obj' = fadeTimer obj"
    "ox obj' = ox obj" "oy obj' = oy obj" "expired obj' = expired obj"
proof -
  from assms have e: "obj = obj'\<lparr>rotation := rotation obj\<rparr>"
    by (simp add: atRest_def)
  show "active obj' = active obj" "fading obj' = fading obj" "fadeTimer obj' = fadeTimer obj"
    "ox obj' = ox obj" "oy obj' = oy obj" "expired obj' = expired obj"
    by (subst e, simp add: expired_def)+
qed

lemma atRest_integrate:
  assumes "atRest obj obj'"
  shows "atRest obj (integrate g 0 obj')" "atRest obj (integrate g 0 (obj'\<lparr>fadeTimer := fadeTimer obj' + 0\<rparr>))"
  using assms by (simp_all add: atRest_def integrate_def Let_def)

lemma physicsStep_idle:
  assumes i: "idle hp0 xs acc" and a: "a \<in> set xs" and v: "a < length hp0"
  shows "idle hp0 xs (physicsStep g 0 a acc)"
proof -
  from i v have r: "atRest (hp0 ! a) (fst acc ! a)" and len: "length (fst acc) = length hp0"
    by (simp_all add: idle_def)
  note f = atRest_fields [OF r]
  have rest: "\<forall>b < length hp0. atRest (hp0 ! b) ((fst acc)[a := obj] ! b)"
    if "atRest (hp0 ! a) obj" for obj
    using i that len v by (auto simp: idle_def nth_list_update)
  note r1 = rest [OF atRest_integrate(1) [OF r, of g]]
  note r2 = rest [OF atRest_integrate(2) [OF r, of g]]
  have e1: "expired (integrate g 0 (fst acc ! a)) = expired (hp0 ! a)"
    and e2: "expired (integrate g 0 ((fst acc ! a)\<lparr>fadeTimer := fadeTimer (fst acc ! a) + 0\<rparr>))
               = expired (hp0 ! a)"
    using atRest_fields(6) [OF atRest_integrate(1) [OF r, of g]]
          atRest_fields(6) [OF atRest_integrate(2) [OF r, of g]] by simp_all
  show ?thesis
  proof (cases "active (fst acc ! a)")
    case False
    with i show ?thesis by (simp add: physicsStep_def Let_def)
  next
    case True
    show ?thesis
    proof (cases "fading (fst acc ! a)")
      case fd: True
      have q: "fadeTimer (integrate g 0 ((fst acc ! a)\<lparr>fadeTimer := fadeTimer (fst acc ! a) + 0\<rparr>)) > 0.6
               \<Longrightarrow> expired (hp0 ! a)"
        using True fd f by (simp add: expired_def integrate_def Let_def)
      from i True fd r2 a q show ?thesis
        by (auto simp: physicsStep_def Let_def idle_def len)
    next
      case nf: False
      have q: "oy (integrate g 0 (fst acc ! a)) > 1.2 \<or> ox (integrate g 0 (fst acc ! a)) < - 0.15
                 \<or> ox (integrate g 0 (fst acc ! a)) > 1.15 \<Longrightarrow> expired (hp0 ! a)"
        using True nf f by (simp add: expired_def integrate_def Let_def)
      from i True nf r1 a q show ?thesis
        by (auto simp: physicsStep_def Let_def idle_def len)
    qed
  qed
qed

lemma fold_physicsStep_idle:
  assumes "idle hp0 xs acc" and "set ys \<subseteq> set xs" and "\<forall>a \<in> set ys. a < length hp0"
  shows "idle hp0 xs (fold (physicsStep g 0) ys acc)"
  using assms
proof (induction ys arbitrary: acc)
  case Nil
  then show ?case by simp
next
  case (Cons a ys)
  from Cons.prems have "idle hp0 xs (physicsStep g 0 a acc)"
    by (intro physicsStep_idle) simp_all
  with Cons.prems show ?case
    by (simp add: Cons.IH)
qed

lemma physics_idle:
  assumes "refsValid s"
  shows "\<forall>a \<in> set (snd (physics 0 s)). a \<in> set (objects s) \<and> expired (heap s ! a)"
proof -
  have "idle (heap s) (objects s) (heap s, [])"
    by (simp add: idle_def)
  then have "idle (heap s) (objects s) (fold (physicsStep (gravity s) 0) (objects s) (heap s, []))"
    by (rule fold_physicsStep_idle) (use assms in \<open>simp_all add: refsValid_def\<close>)
  then show ?thesis
    by (simp add: physics_def Let_def idle_def)
qed

lemma preCollision_idle:
  assumes inv: "engineInv s" and run: "\<not> isGameOver s"
  shows "heap (fst (spawning rnd 0 (advance 0 s, emptyFrame))) = heap s"
    and "objects (fst (spawning rnd 0 (advance 0 s, emptyFrame))) = objects s"
    and "combo (fst (fst (preCollision rnd 0 s))) = combo s"
proof -
  from inv run have "spawnTimer (advance 0 s) + 0 < spawnInterval (advance 0 s)"
    by (simp add: engineInv_def advance_def)
  from spawning_not_due [OF this, of rnd emptyFrame]
  show "heap (fst (spawning rnd 0 (advance 0 s, emptyFrame))) = heap s"
    and "objects (fst (spawning rnd 0 (advance 0 s, emptyFrame))) = objects s"
    by (simp_all add: advance_def)
  from inv show "combo (fst (fst (preCollision rnd 0 s))) = combo s"
    by (auto simp: preCollision_fields engineInv_def)
qed

subsection \<open>Two more concrete runs: a bomb and a heart\<close>

lemma floor_steady: "\<lfloor>43 / 400 :: real\<rfloor> = 0" "\<lfloor>129 / 800 :: real\<rfloor> = 0"
  by (simp_all add: floor_eq_iff)

lemma preCollision_bomb_first:
  "preCollision (steadyRnd (1 / 10)) 1.5 newGameEngine
     = ((afterBombFrame, []), \<lparr>spawned = [0], removed = [], hits = []\<rparr>)"
  apply (simp add: preCollision_def advance_def spawning_def Let_def split_def random_def batchCount_def steadyRnd_def newGameEngine_def emptyFrame_def floor_steady)
  apply (simp add: spawnOne_def spawnObject_def Let_def split_def random_def generateId_def steadyRnd_def)
  apply (simp add: comboDecay_def physics_def physicsStep_def integrate_def Let_def afterBombFrame_def eval_nat_numeral)
  done

lemma preCollision_heart_first:
  "preCollision (steadyRnd (3 / 20)) 1.5 newGameEngine
     = ((afterHeartFrame, []), \<lparr>spawned = [0], removed = [], hits = []\<rparr>)"
  apply (simp add: preCollision_def advance_def spawning_def Let_def split_def random_def batchCount_def steadyRnd_def newGameEngine_def emptyFrame_def floor_steady)
  apply (simp add: spawnOne_def spawnObject_def Let_def split_def random_def generateId_def steadyRnd_def)
  apply (simp add: comboDecay_def physics_def physicsStep_def integrate_def Let_def afterHeartFrame_def eval_nat_numeral)
  done

lemma detected_no_hands:
  assumes "preCollision rnd dt s = ((s7, tr), f)" and "recentHits (collisionSystem s7) = Map.empty"
  shows "detected rnd now dt noHands s = ([], collisionSystem s7)"
proof -
  have one: "checkOne now noHands hp a acc = acc" for hp a acc
    by (simp add: checkOne_def Let_def checkCollision_def noHands_def noHand_def)
  have "fold (checkOne now noHands hp) xs acc = acc" for hp xs acc
    by (induction xs) (simp_all add: one)
  moreover have "pruneCooldowns now (collisionSystem s7) = collisionSystem s7"
    using assms(2) by (simp add: pruneCooldowns_def)
  ultimately show ?thesis
    by (simp add: detected_def assms(1) Let_def checkAll_def)
qed

lemma update_first_no_hands:
  assumes "preCollision rnd 1.5 newGameEngine = ((s7, []), f)"
      and "recentHits (collisionSystem s7) = Map.empty"
  shows "update rnd now 1.5 noHands newGameEngine = (s7, f)"
proof -
  have r: "\<not> isGameOver newGameEngine" "\<not> isPaused newGameEngine"
    "1.5 < timeRemaining newGameEngine"
    by (simp_all add: newGameEngine_def)
  show ?thesis
    unfolding update_running [OF r] assms(1) detected_no_hands [OF assms]
    by (simp add: Let_def)
qed

lemma update_bomb_first:
  "update (steadyRnd (1 / 10)) 0 1.5 noHands newGameEngine
     = (afterBombFrame, \<lparr>spawned = [0], removed = [], hits = []\<rparr>)"
  by (rule update_first_no_hands [OF preCollision_bomb_first])
     (simp add: afterBombFrame_def newCollisionSystem_def)

lemma update_heart_first:
  "update (steadyRnd (3 / 20)) 0 1.5 noHands newGameEngine
     = (afterHeartFrame, \<lparr>spawned = [0], removed = [], hits = []\<rparr>)"
  by (rule update_first_no_hands [OF preCollision_heart_first])
     (simp add: afterHeartFrame_def newCollisionSystem_def)

lemma reachable_afterBombFrame: "reachable afterBombFrame"
proof -
  have "reachable (fst (update (steadyRnd (1 / 10)) 0 1.5 noHands newGameEngine))"
    by (rule reach_update [OF reach_new]) simp
  then show ?thesis by (simp only: update_bomb_first fst_conv)
qed

lemma reachable_afterHeartFrame: "reachable afterHeartFrame"
proof -
  have "reachable (fst (update (steadyRnd (3 / 20)) 0 1.5 noHands newGameEngine))"
    by (rule reach_update [OF reach_new]) simp
  then show ?thesis by (simp only: update_heart_first fst_conv)
qed


lemma bomb_at_zero_dt:
  "timeRemaining (fst (update (steadyRnd (1 / 10)) 1000 0 (handsAt (- 0.032) 0.955) afterBombFrame))
     = 18.5"
proof -
  have r: "\<not> isGameOver afterBombFrame" "\<not> isPaused afterBombFrame"
    "0 < timeRemaining afterBombFrame"
    by (simp_all add: afterBombFrame_def)
  have p: "preCollision (steadyRnd (1 / 10)) 0 afterBombFrame
             = ((afterBombFrame\<lparr>heap := [(heap afterBombFrame ! 0)\<lparr>rotation := - 0.064\<rparr>]\<rparr>, []),
                emptyFrame)"
    apply (simp add: preCollision_def advance_def spawning_def Let_def split_def
        afterBombFrame_def emptyFrame_def)
    apply (simp add: comboDecay_def physics_def physicsStep_def integrate_def Let_def)
    done
  have d: "fst (detected (steadyRnd (1 / 10)) 1000 0 (handsAt (- 0.032) 0.955) afterBombFrame)
             = [\<lparr>object = 0, hand = swipe (- 0.032) 0.955, side = Left\<rparr>]"
    unfolding detected_def p
    by (simp add: Let_def checkAll_def checkOne_def sliceable_def afterBombFrame_def
        pruneCooldowns_def newCollisionSystem_def checkCollision_def handsAt_def swipe_def)
  show ?thesis
    unfolding update_running [OF r] p Let_def d
    using core_eqD(10) [OF conjunct1 [OF cleanup_facts]]
    by (simp add: Let_def bombHit_fields afterBombFrame_def)
qed

lemma heart_at_zero_dt:
  "timeRemaining (fst (update (steadyRnd (3 / 20)) 1000 0 (handsAt (- 0.018) 0.9625) afterHeartFrame))
     = 38.5"
proof -
  have r: "\<not> isGameOver afterHeartFrame" "\<not> isPaused afterHeartFrame"
    "0 < timeRemaining afterHeartFrame"
    by (simp_all add: afterHeartFrame_def)
  have p: "preCollision (steadyRnd (3 / 20)) 0 afterHeartFrame
             = ((afterHeartFrame\<lparr>heap := [(heap afterHeartFrame ! 0)\<lparr>rotation := - 0.056\<rparr>]\<rparr>, []),
                emptyFrame)"
    apply (simp add: preCollision_def advance_def spawning_def Let_def split_def
        afterHeartFrame_def emptyFrame_def)
    apply (simp add: comboDecay_def physics_def physicsStep_def integrate_def Let_def)
    done
  have d: "fst (detected (steadyRnd (3 / 20)) 1000 0 (handsAt (- 0.018) 0.9625) afterHeartFrame)
             = [\<lparr>object = 0, hand = swipe (- 0.018) 0.9625, side = Left\<rparr>]"
    unfolding detected_def p
    by (simp add: Let_def checkAll_def checkOne_def sliceable_def afterHeartFrame_def
        pruneCooldowns_def newCollisionSystem_def checkCollision_def handsAt_def swipe_def)
  show ?thesis
    unfolding update_running [OF r] p Let_def d
    using core_eqD(10) [OF conjunct1 [OF cleanup_facts]]
          core_eqD(10) [OF heartHit_effect(1)]
    by (simp add: Let_def afterHeartFrame_def)
qed

subsection \<open>What the resolution of hits does to score, combo and timer\<close>

lemma atRest_kind:
  assumes "atRest obj obj'"
  shows "isBomb obj' = isBomb obj" "isHeart obj' = isHeart obj" "generation obj' = generation obj"
proof -
  from assms have e: "obj = obj'\<lparr>rotation := rotation obj\<rparr>"
    by (simp add: atRest_def)
  show "isBomb obj' = isBomb obj" "isHeart obj' = isHeart obj" "generation obj' = generation obj"
    by (subst e, simp)+
qed

lemma physics_atRest:
  assumes "refsValid s" and "b < length (heap s)"
  shows "atRest (heap s ! b) (heap (fst (physics 0 s)) ! b)"
proof -
  have "idle (heap s) (objects s) (heap s, [])"
    by (simp add: idle_def)
  then have "idle (heap s) (objects s) (fold (physicsStep (gravity s) 0) (objects s) (heap s, []))"
    by (rule fold_physicsStep_idle) (use assms(1) in \<open>simp_all add: refsValid_def\<close>)
  with assms(2) show ?thesis
    by (simp add: physics_def Let_def idle_def)
qed

lemma resolveHits_removed:
  "removed (snd (resolveHits rnd hts acc)) = removed (snd acc)"
proof (induction hts arbitrary: acc)
  case Nil
  show ?case by simp
next
  case (Cons hit rest)
  show ?case
    using Cons.IH [of "bombHit hit acc"] Cons.IH [of "heartHit hit acc"]
          Cons.IH [of "sliceFruit rnd hit acc"]
    by (simp add: Let_def bombHit_effect heartHit_effect sliceFruit_fields)
qed

lemma bombHit_scalars:
  assumes "isBomb (hp0 ! object hit)"
  shows "scalars (fst (bombHit hit acc)) = hitEffect hp0 mx hit (scalars (fst acc))"
  using assms by (simp add: scalars_def hitEffect_def bombHit_fields Let_def)

lemma heartHit_scalars:
  assumes "\<not> isBomb (hp0 ! object hit)" and "isHeart (hp0 ! object hit)"
      and "maxTime (fst acc) = mx"
  shows "scalars (fst (heartHit hit acc)) = hitEffect hp0 mx hit (scalars (fst acc))"
  using assms core_eqD(2,3,10) [OF heartHit_effect(1), of hit acc]
  by (simp add: scalars_def hitEffect_def Let_def)

lemma sliceFruit_scalars:
  assumes "\<not> isBomb (hp0 ! object hit)" and "\<not> isHeart (hp0 ! object hit)"
      and "object hit < length (heap (fst acc))"
      and "generation (heap (fst acc) ! object hit) = generation (hp0 ! object hit)"
  shows "scalars (fst (sliceFruit rnd hit acc)) = hitEffect hp0 mx hit (scalars (fst acc))"
proof -
  obtain s f where acc: "acc = (s, f)" by (cases acc)
  from assms(3) have v: "object hit < length (heap s)" by (simp add: acc)
  from sliceFruit_effect(1,2,4) [OF v, of rnd f] assms(1,2,4)
  show ?thesis
    by (simp add: acc scalars_def hitEffect_def Let_def)
qed

lemma resolveHits_scalars:
  assumes "heapGrows hp0 (heap (fst acc))" and "\<forall>h \<in> set hts. object h < length hp0"
      and "maxTime (fst acc) = mx"
  shows "\<exists>d. hits (snd (resolveHits rnd hts acc)) = hits (snd acc) @ d \<and>
             scalars (fst (resolveHits rnd hts acc)) = fold (hitEffect hp0 mx) d (scalars (fst acc))"
  using assms
proof (induction hts arbitrary: acc)
  case Nil
  show ?case by simp
next
  case (Cons hit rest)
  from Cons.prems(2) have v: "object hit < length hp0"
    and vr: "\<forall>h \<in> set rest. object h < length hp0"
    by simp_all
  note k = heapGrowsD [OF Cons.prems(1) v]
  show ?case
  proof (cases "isBomb (hp0 ! object hit)")
    case True
    note sc = bombHit_scalars [OF True, of acc mx]
    show ?thesis
    proof (cases "timeRemaining (fst (bombHit hit acc)) \<le> 0")
      case over: True
      have "hits (snd (resolveHits rnd (hit # rest) acc)) = hits (snd acc) @ [hit]"
        and "scalars (fst (resolveHits rnd (hit # rest) acc)) = scalars (fst (bombHit hit acc))"
        using True over k(3) by (simp_all add: Let_def bombHit_effect scalars_def)
      with sc show ?thesis by simp
    next
      case False
      have g: "heapGrows hp0 (heap (fst (bombHit hit acc)))"
        by (rule heapGrows_trans [OF Cons.prems(1) bombHit_heapGrows])
      have m: "maxTime (fst (bombHit hit acc)) = mx"
        using core_eqD(11) [OF bombHit_effect(1), of hit acc] Cons.prems(3) by simp
      from Cons.IH [OF g vr m] obtain d where
        "hits (snd (resolveHits rnd rest (bombHit hit acc))) = hits (snd (bombHit hit acc)) @ d"
        "scalars (fst (resolveHits rnd rest (bombHit hit acc)))
           = fold (hitEffect hp0 mx) d (scalars (fst (bombHit hit acc)))"
        by blast
      with True False k(3) sc show ?thesis
        by (intro exI [of _ "hit # d"]) (simp add: Let_def bombHit_effect)
    qed
  next
    case nb: False
    show ?thesis
    proof (cases "isHeart (hp0 ! object hit)")
      case True
      note sc = heartHit_scalars [OF nb True Cons.prems(3)]
      have g: "heapGrows hp0 (heap (fst (heartHit hit acc)))"
        by (rule heapGrows_trans [OF Cons.prems(1) heartHit_heapGrows])
      have m: "maxTime (fst (heartHit hit acc)) = mx"
        using core_eqD(11) [OF heartHit_effect(1), of hit acc] Cons.prems(3) by simp
      from Cons.IH [OF g vr m] obtain d where
        "hits (snd (resolveHits rnd rest (heartHit hit acc))) = hits (snd (heartHit hit acc)) @ d"
        "scalars (fst (resolveHits rnd rest (heartHit hit acc)))
           = fold (hitEffect hp0 mx) d (scalars (fst (heartHit hit acc)))"
        by blast
      with True nb k(3,4) sc show ?thesis
        by (intro exI [of _ "hit # d"]) (simp add: Let_def heartHit_effect)
    next
      case nh: False
      note sc = sliceFruit_scalars [OF nb nh k(1) k(5), of rnd mx]
      have g: "heapGrows hp0 (heap (fst (sliceFruit rnd hit acc)))"
        by (rule heapGrows_trans [OF Cons.prems(1) sliceFruit_heapGrows])
      have m: "maxTime (fst (sliceFruit rnd hit acc)) = mx"
        using settings_eqD(5) [OF sliceFruit_settings, of rnd hit acc] Cons.prems(3) by simp
      from Cons.IH [OF g vr m] obtain d where
        "hits (snd (resolveHits rnd rest (sliceFruit rnd hit acc)))
           = hits (snd (sliceFruit rnd hit acc)) @ d"
        "scalars (fst (resolveHits rnd rest (sliceFruit rnd hit acc)))
           = fold (hitEffect hp0 mx) d (scalars (fst (sliceFruit rnd hit acc)))"
        by blast
      with nh nb k(3,4) sc show ?thesis
        by (intro exI [of _ "hit # d"]) (simp add: Let_def sliceFruit_fields)
    qed
  qed
qed

lemma hitEffect_cong:
  assumes "isBomb (hp ! object h) = isBomb (hp' ! object h)"
      and "isHeart (hp ! object h) = isHeart (hp' ! object h)"
      and "generation (hp ! object h) = generation (hp' ! object h)"
  shows "hitEffect hp mx h = hitEffect hp' mx h"
  using assms by (simp add: hitEffect_def fun_eq_iff Let_def)

lemma fold_hitEffect_cong:
  assumes "\<forall>h \<in> set hs. hitEffect hp mx h = hitEffect hp' mx h"
  shows "fold (hitEffect hp mx) hs v = fold (hitEffect hp' mx) hs v"
  using assms by (induction hs arbitrary: v) simp_all

lemma fold_hitEffect_no_fruit:
  assumes "\<forall>h \<in> set hs. \<not> isFruitHit hp h"
  shows "fst (fold (hitEffect hp mx) hs v) = fst v
       \<and> fst (snd (fold (hitEffect hp mx) hs v)) = fst (snd v)"
  using assms
proof (induction hs arbitrary: v)
  case Nil
  show ?case by simp
next
  case (Cons h hs)
  from Cons.prems have "fst (hitEffect hp mx h v) = fst v"
    "fst (snd (hitEffect hp mx h v)) = fst (snd v)"
    by (auto simp: hitEffect_def isFruitHit_def Let_def)
  with Cons.IH [of "hitEffect hp mx h v"] Cons.prems show ?case by simp
qed

lemma fold_hitEffect_only_fruit:
  assumes "\<forall>h \<in> set hs. isFruitHit hp h"
  shows "snd (snd (fold (hitEffect hp mx) hs v)) = snd (snd v)"
  using assms
proof (induction hs arbitrary: v)
  case Nil
  show ?case by simp
next
  case (Cons h hs)
  from Cons.prems have "snd (snd (hitEffect hp mx h v)) = snd (snd v)"
    by (simp add: hitEffect_def isFruitHit_def Let_def)
  with Cons.IH [of "hitEffect hp mx h v"] Cons.prems show ?case by simp
qed

text \<open>
  One call with \<open>dt = 0\<close> from a state the engine can be in, whatever the hands: what is
  removed was in the object array and expired before the call, and score, combo and timer
  change by the effects of the hits of the frame summary, in their order, and by nothing
  else.
\<close>

lemma zero_dt_call:
  assumes "reachable s"
  shows "(\<forall>x \<in> set (removed (snd (update rnd now 0 hs s))).
            x \<in> set (objects s) \<and> expired (heap s ! x))
       \<and> scalars (fst (update rnd now 0 hs s))
           = fold (hitEffect (heap s) (maxTime s)) (hits (snd (update rnd now 0 hs s))) (scalars s)"
proof -
  note inv = reachable_engineInv [OF assms]
  show ?thesis
  proof (cases "isGameOver s \<or> isPaused s")
    case True
    then show ?thesis
      by (simp add: update_stopped emptyFrame_def)
  next
    case False
    with inv have run: "\<not> isGameOver s" "\<not> isPaused s" "0 < timeRemaining s"
      by (auto simp: engineInv_def)
    from inv have rv: "refsValid s" by (simp add: engineInv_def)
    let ?p = "preCollision rnd 0 s"
    let ?s7 = "fst (fst ?p)"
    let ?c = "detected rnd now 0 hs s"
    let ?start = "(?s7\<lparr>collisionSystem := snd ?c\<rparr>, snd ?p)"
    let ?mid = "resolveHits rnd (fst ?c) ?start"
    let ?fin = "cleanup (snd (fst ?p)) ?mid"
    let ?s6 = "comboDecay 0 (fst (spawning rnd 0 (advance 0 s, emptyFrame)))"
    have upd: "update rnd now 0 hs s = ?fin"
      by (simp add: update_running [OF run] Let_def)
    note s6 = preCollision_idle(1,2) [OF inv run(1), of rnd]
    have rv6: "refsValid ?s6"
      using rv by (simp add: refsValid_def s6)
    have p: "fst ?p = physics 0 ?s6"
      by (simp add: preCollision_def Let_def)
    have len: "length (heap ?s7) = length (heap s)"
      by (simp add: p s6)
    from physics_idle [OF rv6]
    have q: "\<forall>a \<in> set (snd (fst ?p)). a \<in> set (objects s) \<and> expired (heap s ! a)"
      by (simp add: p s6)
    have rem: "removed (snd ?fin) = snd (fst ?p)"
      using cleanup_facts [of "snd (fst ?p)" ?mid] resolveHits_removed [of rnd "fst ?c" ?start]
      by (simp add: preCollision_fields)
    have valid: "\<forall>h \<in> set (fst ?c). object h < length (heap ?s7)"
      using detected_valid [OF rv] by blast
    have "\<exists>d. hits (snd ?mid) = hits (snd ?start) @ d \<and>
             scalars (fst ?mid) = fold (hitEffect (heap ?s7) (maxTime s)) d (scalars (fst ?start))"
      by (rule resolveHits_scalars) (use valid in \<open>simp_all add: preCollision_fields\<close>)
    then have mid: "scalars (fst ?mid)
                      = fold (hitEffect (heap ?s7) (maxTime s)) (hits (snd ?mid)) (scalars (fst ?start))"
      by (auto simp: preCollision_fields)
    have start: "scalars (fst ?start) = scalars s"
      using preCollision_idle(3) [OF inv run(1), of rnd]
      by (simp add: scalars_def preCollision_fields)
    have sub: "set (hits (snd ?mid)) \<subseteq> set (fst ?c)"
      using resolveHits_hits_subset [of rnd "fst ?c" ?start] by (simp add: preCollision_fields)
    have same: "hitEffect (heap ?s7) (maxTime s) h = hitEffect (heap s) (maxTime s) h"
      if "h \<in> set (hits (snd ?mid))" for h
    proof -
      from that sub valid len have v: "object h < length (heap s)" by auto
      then have "object h < length (heap ?s6)" by (simp add: s6)
      from physics_atRest [OF rv6 this]
      have "atRest (heap s ! object h) (heap ?s7 ! object h)"
        by (simp add: p s6)
      from atRest_kind [OF this] show ?thesis
        by (intro hitEffect_cong) simp_all
    qed
    have "fold (hitEffect (heap ?s7) (maxTime s)) (hits (snd ?mid)) (scalars s)
            = fold (hitEffect (heap s) (maxTime s)) (hits (snd ?mid)) (scalars s)"
      by (rule fold_hitEffect_cong) (use same in blast)
    with mid start
    have "scalars (fst ?mid) = fold (hitEffect (heap s) (maxTime s)) (hits (snd ?mid)) (scalars s)"
      by simp
    moreover have "scalars (fst ?fin) = scalars (fst ?mid)" "hits (snd ?fin) = hits (snd ?mid)"
      using core_eqD(2,3,10) [OF conjunct1 [OF cleanup_facts], of "snd (fst ?p)" ?mid]
            cleanup_facts [of "snd (fst ?p)" ?mid]
      by (simp_all add: scalars_def)
    ultimately have sc: "scalars (fst ?fin)
        = fold (hitEffect (heap s) (maxTime s)) (hits (snd ?fin)) (scalars s)"
      by simp
    from q rem sc show ?thesis
      by (simp only: upd simp_thms)
  qed
qed

text \<open>
  C9, as the code has it. Start from a state the engine can be in and call \<open>update\<close> with
  \<open>dt = 0\<close> any number of times, with any hands and clock values. For every call of the
  run, compared with the state before that call: every object the call removes was in the
  object array and already expired (out of the bounds, or fading for longer than the fade
  duration), whether or not the call resolves hits; score, combo and timer change exactly by
  the effects of the hits the call resolves; so score and combo are unchanged by a call that
  resolves no fruit hit, and the timer is unchanged by a call that resolves fruit hits only.
\<close>

theorem zero_dt_run_changes_only_by_hits:
  assumes "reachable s"
  shows "\<forall>c \<in> set (zeroDtRun rnd calls s).
           (\<forall>x \<in> set (removed (snd (snd c))).
              x \<in> set (objects (fst c)) \<and> expired (heap (fst c) ! x))
         \<and> scalars (fst (snd c))
             = fold (hitEffect (heap (fst c)) (maxTime (fst c))) (hits (snd (snd c)))
                 (scalars (fst c))
         \<and> ((\<forall>h \<in> set (hits (snd (snd c))). \<not> isFruitHit (heap (fst c)) h) \<longrightarrow>
              score (fst (snd c)) = score (fst c) \<and> combo (fst (snd c)) = combo (fst c))
         \<and> ((\<forall>h \<in> set (hits (snd (snd c))). isFruitHit (heap (fst c)) h) \<longrightarrow>
              timeRemaining (fst (snd c)) = timeRemaining (fst c))"
  using assms
proof (induction calls arbitrary: s)
  case Nil
  show ?case by simp
next
  case (Cons call calls)
  obtain now hs where call: "call = (now, hs)" by (cases call)
  let ?r = "update rnd now 0 hs s"
  note step = zero_dt_call [OF Cons.prems, of rnd now hs]
  from step have sc: "scalars (fst ?r)
      = fold (hitEffect (heap s) (maxTime s)) (hits (snd ?r)) (scalars s)"
    by blast
  have nf: "score (fst ?r) = score s \<and> combo (fst ?r) = combo s"
    if "\<forall>h \<in> set (hits (snd ?r)). \<not> isFruitHit (heap s) h"
    using fold_hitEffect_no_fruit [OF that, of "maxTime s" "scalars s"] sc [symmetric]
    by (simp add: scalars_def)
  have fr: "timeRemaining (fst ?r) = timeRemaining s"
    if "\<forall>h \<in> set (hits (snd ?r)). isFruitHit (heap s) h"
    using fold_hitEffect_only_fruit [OF that, of "maxTime s" "scalars s"] sc [symmetric]
    by (simp add: scalars_def)
  have "reachable (fst ?r)"
    by (rule reach_update [OF Cons.prems]) simp
  from Cons.IH [OF this] step nf fr show ?case
    by (simp add: call Let_def)
qed

theorem zero_dt_run_changes_only_by_hits_witness:
  "zeroDtRun halfRnd [(1000, sliceHands)] afterFirstFrame
     = [(afterFirstFrame, afterSlice,
         \<lparr>spawned = [1, 2], removed = [],
           hits = [\<lparr>object = 0, hand = swipe 0.08 1.015, side = Left\<rparr>]\<rparr>)]
   \<and> scalars afterSlice = (10, 1, 28.5)
   \<and> timeRemaining afterSlice = timeRemaining afterFirstFrame"
proof -
  let ?f = "\<lparr>spawned = [1, 2], removed = [],
             hits = [\<lparr>object = 0, hand = swipe 0.08 1.015, side = Left\<rparr>]\<rparr>"
  have run: "zeroDtRun halfRnd [(1000, sliceHands)] afterFirstFrame
               = [(afterFirstFrame, afterSlice, ?f)]"
    by (simp add: update_second Let_def)
  from zero_dt_run_changes_only_by_hits [OF reachable_afterFirstFrame,
      of halfRnd "[(1000, sliceHands)]"]
  have c: "scalars afterSlice
             = fold (hitEffect (heap afterFirstFrame) (maxTime afterFirstFrame)) (hits ?f)
                 (scalars afterFirstFrame)"
    and t: "(\<forall>h \<in> set (hits ?f). isFruitHit (heap afterFirstFrame) h) \<longrightarrow>
              timeRemaining afterSlice = timeRemaining afterFirstFrame"
    unfolding run by simp_all
  have fruit: "\<forall>h \<in> set (hits ?f). isFruitHit (heap afterFirstFrame) h"
    by (simp add: isFruitHit_def afterFirstFrame_def)
  have "fold (hitEffect (heap afterFirstFrame) (maxTime afterFirstFrame)) (hits ?f)
          (scalars afterFirstFrame) = (10, 1, 28.5)"
    by (simp add: hitEffect_def scalars_def afterFirstFrame_def Let_def)
  with c t fruit run show ?thesis
    by (simp only: simp_thms)
qed

text \<open>
  The claim C9 as it is worded fails when a hand hits an object during the call, for
  collision detection does not look at \<open>dt\<close>. After the first frame with the lime, a call
  with \<open>dt = 0\<close> and the left hand swiping through the lime raises the score from \<open>0\<close> to
  \<open>10\<close> and the combo from \<open>0\<close> to \<open>1\<close>; after the first frame with the bomb, such a call
  through the bomb lowers the timer from \<open>28.5\<close> to \<open>18.5\<close>; after the first frame with the
  heart, such a call through the heart raises the timer from \<open>28.5\<close> to \<open>38.5\<close>.
\<close>

theorem zero_dt_hits_change_state:
  "reachable afterFirstFrame
   \<and> score afterFirstFrame = 0 \<and> combo afterFirstFrame = 0
   \<and> score (fst (update halfRnd 1000 0 sliceHands afterFirstFrame)) = 10
   \<and> combo (fst (update halfRnd 1000 0 sliceHands afterFirstFrame)) = 1
   \<and> reachable afterBombFrame \<and> timeRemaining afterBombFrame = 28.5
   \<and> timeRemaining (fst (update (steadyRnd (1 / 10)) 1000 0 (handsAt (- 0.032) 0.955)
                             afterBombFrame)) = 18.5
   \<and> reachable afterHeartFrame \<and> timeRemaining afterHeartFrame = 28.5
   \<and> timeRemaining (fst (update (steadyRnd (3 / 20)) 1000 0 (handsAt (- 0.018) 0.9625)
                             afterHeartFrame)) = 38.5"
proof -
  have a: "score afterFirstFrame = 0" "combo afterFirstFrame = 0"
    "timeRemaining afterBombFrame = 28.5" "timeRemaining afterHeartFrame = 28.5"
    by (simp_all add: afterFirstFrame_def afterBombFrame_def afterHeartFrame_def)
  have b: "score (fst (update halfRnd 1000 0 sliceHands afterFirstFrame)) = 10"
    "combo (fst (update halfRnd 1000 0 sliceHands afterFirstFrame)) = 1"
    by (simp_all add: update_second afterSlice_fields)
  from a b reachable_afterFirstFrame reachable_afterBombFrame reachable_afterHeartFrame
       bomb_at_zero_dt heart_at_zero_dt
  show ?thesis by (simp only: simp_thms)
qed

end
